theory Spec2Isabelle
  imports Main "HOL-Library.Word"
begin

section \<open>The basic-block layer of Rellume (src/llbasicblock.cc)\<close>

text \<open>
  The methods of \<^verbatim>\<open>rellume::BasicBlock\<close> mutate three kinds of objects that point at
  each other: the \<^verbatim>\<open>BasicBlock\<close> objects themselves (a block holds pointers to its
  predecessors and successors), the LLVM instructions they create (a PHI node is created
  empty and receives its incoming values later, through a pointer kept in the block and
  in the register file), and the shared \<^verbatim>\<open>LLState\<close> (the IR builder with its insertion
  point, and the pointer to the current register file). The embedding therefore passes an
  explicit store: pointers are addresses (natural numbers), objects are looked up in
  finite maps, and a null or dangling pointer is a lookup that fails.
\<close>

subsection \<open>LLVM values and instructions\<close>

type_synonym llbb = nat       \<comment> \<open>\<^verbatim>\<open>llvm::BasicBlock*\<close>\<close>
type_synonym inst_ref = nat   \<comment> \<open>\<^verbatim>\<open>llvm::Instruction*\<close>\<close>
type_synonym bb_ref = nat     \<comment> \<open>\<^verbatim>\<open>rellume::BasicBlock*\<close>\<close>

datatype LLType = IntegerTy nat | VectorTy nat LLType

text \<open>
  An \<^verbatim>\<open>llvm::Value*\<close>. The constants this file builds are integer constants
  (\<^verbatim>\<open>ConstantInt::get\<close>, \<^verbatim>\<open>getFalse\<close>), given by bit width and unsigned value; an
  instruction is a value by its address. In LLVM's class hierarchy
  \<^verbatim>\<open>UndefValue\<close> derives from \<^verbatim>\<open>ConstantData\<close> and so from \<^verbatim>\<open>Constant\<close>, like
  \<^verbatim>\<open>ConstantInt\<close>; arguments and instructions are not constants.
\<close>

datatype Value =
    ConstantInt nat nat
  | UndefValue
  | Argument nat
  | Inst inst_ref

datatype Instruction =
    PHINode LLType "(Value \<times> llbb) list"
  | CallDoNothing
  | SelectInst Value Value Value
  | Br llbb
  | CondBr Value llbb llbb

fun isa_Constant :: "Value \<Rightarrow> bool" where
  "isa_Constant (ConstantInt w n) = True"
| "isa_Constant UndefValue = True"
| "isa_Constant (Argument i) = False"
| "isa_Constant (Inst k) = False"

fun isa_UndefValue :: "Value \<Rightarrow> bool" where
  "isa_UndefValue UndefValue = True"
| "isa_UndefValue v = False"

text \<open>
  \<^verbatim>\<open>Constant::isNullValue\<close>: an integer constant that is zero (and floating-point zero,
  zero aggregates and null pointers, which this file never builds). It is false for
  \<^verbatim>\<open>undef\<close>.
\<close>

fun isNullValue :: "Value \<Rightarrow> bool" where
  "isNullValue (ConstantInt w n) = (n = 0)"
| "isNullValue v = False"

fun is_terminator :: "Instruction \<Rightarrow> bool" where
  "is_terminator (Br t) = True"
| "is_terminator (CondBr c t f) = True"
| "is_terminator i = False"

definition getFalse :: Value where
  "getFalse = ConstantInt 1 0"

subsection \<open>Registers, facets and the register file\<close>

datatype LLRegType = LL_RT_GP64 | LL_RT_XMM | LL_RT_IP

datatype LLReg = LLReg LLRegType nat

text \<open>
  Modelled from the spec: the enumeration \<^verbatim>\<open>Facet\<close> and \<^verbatim>\<open>Facet::Type\<close> are declared in
  llregfile-internal.h, which is not among the sources. The spec (sections 2, 3, 4.1)
  describes a facet as an enumerated sub-view of a register (8-bit truncation, low 16,
  32-bit zero-extended, full 64-bit, a vector lane grouping) that the catalog maps to
  exactly one primitive IR type. The source names \<^verbatim>\<open>Facet::I64\<close>. No theorem below depends
  on which facets there are.
\<close>

datatype Facet = I8 | I16 | I32 | I64 | I128 | V2I64

fun Facet_Type :: "Facet \<Rightarrow> LLType" where
  "Facet_Type I8 = IntegerTy 8"
| "Facet_Type I16 = IntegerTy 16"
| "Facet_Type I32 = IntegerTy 32"
| "Facet_Type I64 = IntegerTy 64"
| "Facet_Type I128 = IntegerTy 128"
| "Facet_Type V2I64 = VectorTy 2 (IntegerTy 64)"

text \<open>
  Modelled from the spec: the sizes \<^verbatim>\<open>LL_RI_GPMax\<close>, \<^verbatim>\<open>LL_RI_XMMMax\<close> and \<^verbatim>\<open>RFLAG_Max\<close>
  come from rellume/instr.h and llregfile-internal.h, which are not among the sources.
  The spec (section 3) gives 16 general-purpose and 16 vector slots and leaves the number
  F of flags open; the six x86 status flags are taken here. The general theorems below
  never unfold these three constants.
\<close>

definition LL_RI_GPMax :: nat where
  "LL_RI_GPMax = 16"

definition LL_RI_XMMMax :: nat where
  "LL_RI_XMMMax = 16"

definition RFLAG_Max :: nat where
  "RFLAG_Max = 6"

record RegFile =
  regs :: "LLReg \<times> Facet \<Rightarrow> Value option"
  rflags :: "nat \<Rightarrow> Value option"

text \<open>
  Modelled from the spec: \<^verbatim>\<open>RegFile::GetReg\<close>, \<^verbatim>\<open>SetReg\<close>, \<^verbatim>\<open>GetFlag\<close> and \<^verbatim>\<open>SetFlag\<close> are
  defined in llregfile.cc, which is not among the sources. Spec section 4.2: a read
  returns the last value written for that exact (register, facet) pair (here \<open>None\<close>, a
  null pointer, when there is none: the register file does not re-derive a value); a
  plain write stores the value for this facet only; an invalidating write stores the
  value and drops every other cached facet of the same register; flags are flat.
\<close>

definition GetReg :: "RegFile \<Rightarrow> LLReg \<Rightarrow> Facet \<Rightarrow> Value option" where
  "GetReg rf r f = regs rf (r, f)"

definition SetReg :: "RegFile \<Rightarrow> LLReg \<Rightarrow> Facet \<Rightarrow> Value \<Rightarrow> bool \<Rightarrow> RegFile" where
  "SetReg rf r f v invalidate =
     (if invalidate
      then rf\<lparr>regs := (\<lambda>(r', f'). if r' = r then (if f' = f then Some v else None)
                                  else regs rf (r', f'))\<rparr>
      else rf\<lparr>regs := (regs rf)((r, f) \<mapsto> v)\<rparr>)"

definition GetFlag :: "RegFile \<Rightarrow> nat \<Rightarrow> Value option" where
  "GetFlag rf i = rflags rf i"

definition SetFlag :: "RegFile \<Rightarrow> nat \<Rightarrow> Value \<Rightarrow> RegFile" where
  "SetFlag rf i v = rf\<lparr>rflags := (rflags rf)(i \<mapsto> v)\<rparr>"

subsection \<open>Basic blocks and the store\<close>

text \<open>
  The class \<^verbatim>\<open>BasicBlock\<close> is declared in llbasicblock-internal.h, which is not among
  the sources; its fields are taken as the methods of llbasicblock.cc use them.
  \<^verbatim>\<open>phis_gp[i]\<close> and \<^verbatim>\<open>phis_sse[i]\<close> give the facets that need a PHI node at the entry
  of the block (\<^verbatim>\<open>facets()\<close>, in iteration order) and, per facet, the slot \<^verbatim>\<open>at(facet)\<close>
  holding the node (an \<^verbatim>\<open>llvm::Value*\<close>, null until \<^verbatim>\<open>AddPhis\<close> ran).
\<close>

record PhiMap =
  facets :: "Facet list"
  at_facet :: "Facet \<Rightarrow> Value option"

record BasicBlock =
  llvmBB :: llbb
  regfile :: RegFile
  phis_gp :: "nat \<Rightarrow> PhiMap"
  phis_sse :: "nat \<Rightarrow> PhiMap"
  phiFlags :: "nat \<Rightarrow> inst_ref option"
  preds :: "bb_ref list"
  nextBranch :: "bb_ref option"
  nextFallThrough :: "bb_ref option"
  new_rip :: "Value option"

text \<open>
  The store: the \<^verbatim>\<open>BasicBlock\<close> objects, the LLVM instructions allocated so far with the
  next free address, the instruction list of every \<^verbatim>\<open>llvm::BasicBlock\<close>, and the two
  fields of the shared \<^verbatim>\<open>LLState\<close> that this file uses: the builder's insertion point
  (the end of a block, or none) and \<^verbatim>\<open>state.regfile\<close>, the pointer to the register file
  of the current block.
\<close>

record Store =
  blocks :: "bb_ref \<Rightarrow> BasicBlock option"
  insts :: "inst_ref \<Rightarrow> Instruction option"
  next_inst :: inst_ref
  contents :: "llbb \<Rightarrow> inst_ref list"
  insert_block :: "llbb option"
  state_regfile :: "bb_ref option"

datatype error =
    CouldNotHandle "64 word"
  | AssertionFailed
  | NullPointer
  | BadCast

text \<open>
  \<^verbatim>\<open>IRBuilder::Insert\<close>: the instruction gets a fresh address and is appended to the block
  of the insertion point (an instruction built without insertion point is created
  detached).
\<close>

definition Insert :: "Instruction \<Rightarrow> Store \<Rightarrow> inst_ref \<times> Store" where
  "Insert i s =
     (let k = next_inst s in
      (k, s\<lparr>insts := (insts s)(k \<mapsto> i),
            next_inst := Suc k,
            contents := (case insert_block s of
                           None \<Rightarrow> contents s
                         | Some bb \<Rightarrow> (contents s)(bb := contents s bb @ [k]))\<rparr>))"

definition CreateBr :: "llbb \<Rightarrow> Store \<Rightarrow> Store" where
  "CreateBr dest s = snd (Insert (Br dest) s)"

definition CreateCondBr :: "Value \<Rightarrow> llbb \<Rightarrow> llbb \<Rightarrow> Store \<Rightarrow> Store" where
  "CreateCondBr c t f s = snd (Insert (CondBr c t f) s)"

text \<open>
  Modelled from the spec: \<^verbatim>\<open>BasicBlock::SetCurrent\<close> is defined in
  llbasicblock-internal.h, which is not among the sources. Spec section 6: every builder
  operation is scoped to the current insertion point, which the core sets to a block
  before emitting into it; section 4.7 calls \<^verbatim>\<open>state.regfile\<close> the block's own live
  register-file handle.
\<close>

definition SetCurrent :: "bb_ref \<Rightarrow> BasicBlock \<Rightarrow> Store \<Rightarrow> Store" where
  "SetCurrent this B s = s\<lparr>insert_block := Some (llvmBB B), state_regfile := Some this\<rparr>"

text \<open>\<^verbatim>\<open>p->llvmBB\<close> for a successor pointer \<open>p\<close>; a null pointer cannot be dereferenced.\<close>

definition deref_llvmBB :: "Store \<Rightarrow> bb_ref option \<Rightarrow> error + llbb" where
  "deref_llvmBB s p =
     (case p of
        None \<Rightarrow> Inl NullPointer
      | Some b \<Rightarrow> (case blocks s b of None \<Rightarrow> Inl NullPointer | Some B \<Rightarrow> Inr (llvmBB B)))"

text \<open>\<^verbatim>\<open>llvm::dyn_cast<llvm::SelectInst>(v)\<close>: the operands when \<open>v\<close> points at a select.\<close>

definition dyn_cast_SelectInst :: "Store \<Rightarrow> Value \<Rightarrow> (Value \<times> Value \<times> Value) option" where
  "dyn_cast_SelectInst s v =
     (case v of
        Inst k \<Rightarrow> (case insts s k of Some (SelectInst c t f) \<Rightarrow> Some (c, t, f) | _ \<Rightarrow> None)
      | _ \<Rightarrow> None)"

subsection \<open>\<^verbatim>\<open>BasicBlock::Terminate\<close>\<close>

definition Terminate :: "bb_ref \<Rightarrow> Store \<Rightarrow> error + Store" where
  "Terminate this s0 =
     (case blocks s0 this of
        None \<Rightarrow> Inl NullPointer
      | Some B \<Rightarrow>
          let s = SetCurrent this B s0 in
          (case new_rip B of
             None \<Rightarrow>
               (case deref_llvmBB s (nextFallThrough B) of
                  Inl e \<Rightarrow> Inl e
                | Inr ft \<Rightarrow> Inr (CreateBr ft s))
           | Some v \<Rightarrow>
               (case dyn_cast_SelectInst s v of
                  Some (cond, tv, fv) \<Rightarrow>
                    if isa_Constant cond then
                      if nextBranch B = None \<and> nextFallThrough B = None then Inl AssertionFailed
                      else if isNullValue cond then
                        (case deref_llvmBB s (nextFallThrough B) of
                           Inl e \<Rightarrow> Inl e
                         | Inr ft \<Rightarrow> Inr (CreateBr ft s))
                      else
                        (case deref_llvmBB s (nextBranch B) of
                           Inl e \<Rightarrow> Inl e
                         | Inr br \<Rightarrow> Inr (CreateBr br s))
                    else if \<not> isa_UndefValue cond then
                      if nextBranch B = None \<or> nextFallThrough B = None then Inl AssertionFailed
                      else
                        (case deref_llvmBB s (nextBranch B) of
                           Inl e \<Rightarrow> Inl e
                         | Inr br \<Rightarrow>
                             (case deref_llvmBB s (nextFallThrough B) of
                                Inl e \<Rightarrow> Inl e
                              | Inr ft \<Rightarrow> Inr (CreateCondBr cond br ft s)))
                    else Inr s
                | None \<Rightarrow> Inr s)))"

text \<open>
  What a call emitted into an \<^verbatim>\<open>llvm::BasicBlock\<close>: the instructions of the block in the
  later store beyond those it had in the earlier one.
\<close>

definition emitted :: "Store \<Rightarrow> Store \<Rightarrow> llbb \<Rightarrow> Instruction option list" where
  "emitted s s' bb = map (insts s') (drop (length (contents s bb)) (contents s' bb))"

subsection \<open>\<^verbatim>\<open>BasicBlock::AddBranches\<close>\<close>

definition bindE :: "error + 'a \<Rightarrow> ('a \<Rightarrow> error + 'b) \<Rightarrow> error + 'b" where
  "bindE m f = (case m of Inl e \<Rightarrow> Inl e | Inr x \<Rightarrow> f x)"

text \<open>An assignment through a \<^verbatim>\<open>BasicBlock*\<close>: the pointer must point at a block.\<close>

definition map_block :: "bb_ref \<Rightarrow> (BasicBlock \<Rightarrow> BasicBlock) \<Rightarrow> Store \<Rightarrow> error + Store" where
  "map_block b f s =
     (case blocks s b of
        None \<Rightarrow> Inl NullPointer
      | Some B \<Rightarrow> Inr (s\<lparr>blocks := (blocks s)(b \<mapsto> f B)\<rparr>))"

definition AddBranches :: "bb_ref \<Rightarrow> bb_ref option \<Rightarrow> bb_ref option \<Rightarrow> Store \<Rightarrow> error + Store" where
  "AddBranches this branch fallThrough s =
     bindE (case blocks s this of None \<Rightarrow> Inl NullPointer | Some B \<Rightarrow> Inr s) (\<lambda>s0.
     bindE (case branch of
              None \<Rightarrow> Inr s0
            | Some br \<Rightarrow>
                bindE (map_block br (\<lambda>B. B\<lparr>preds := preds B @ [this]\<rparr>) s0)
                      (map_block this (\<lambda>B. B\<lparr>nextBranch := Some br\<rparr>))) (\<lambda>s1.
     (case fallThrough of
        None \<Rightarrow> Inr s1
      | Some ft \<Rightarrow>
          bindE (map_block ft (\<lambda>B. B\<lparr>preds := preds B @ [this]\<rparr>) s1)
                (map_block this (\<lambda>B. B\<lparr>nextFallThrough := Some ft\<rparr>)))))"

text \<open>
  The entries one call of \<^verbatim>\<open>AddBranches\<close> on \<open>this\<close> appends to the predecessor list
  of block \<open>x\<close>: one for each argument that is \<open>x\<close>.
\<close>

definition appended :: "bb_ref \<Rightarrow> bb_ref option \<Rightarrow> bb_ref option \<Rightarrow> bb_ref \<Rightarrow> bb_ref list" where
  "appended this branch fallThrough x =
     (if branch = Some x then [this] else []) @ (if fallThrough = Some x then [this] else [])"

subsection \<open>\<^verbatim>\<open>BasicBlock::AddInst\<close>\<close>

text \<open>
  Modelled from the spec: \<^verbatim>\<open>LLInstr\<close> is declared in rellume/instr.h, which is not among
  the sources. The source reads the fields \<^verbatim>\<open>addr\<close>, \<^verbatim>\<open>len\<close> and \<^verbatim>\<open>type\<close>; the next
  address is computed in \<^verbatim>\<open>uintptr_t\<close>, 64 bits wide on the x86-64 host the lifter is
  written for, so the sum wraps modulo \<open>2 ^ 64\<close>.
\<close>

record LLInstr =
  addr :: "64 word"
  len :: nat
  type :: nat

text \<open>
  The handlers of rellume/opcodes.inc (not among the sources) are a parameter: a table
  from the opcodes it lists to the handler of each. A handler gets the instruction, the
  block and the store.
\<close>

type_synonym handler = "LLInstr \<Rightarrow> bb_ref \<Rightarrow> Store \<Rightarrow> error + Store"

text \<open>
  Modelled from the spec: the macro \<^verbatim>\<open>warn_if_reached\<close> comes from llcommon-internal.h,
  which is not among the sources. Spec sections 4.4 (step 5) and 7: an unrecognized
  opcode is a fatal diagnostic that names the address of the instruction; lifting of
  the instruction stream stops there and is not resumed. The argument is the diagnostic
  that \<^verbatim>\<open>printf\<close> wrote just before.
\<close>

definition warn_if_reached :: "error \<Rightarrow> error + Store" where
  "warn_if_reached diagnostic = Inl diagnostic"

definition update_block :: "bb_ref \<Rightarrow> (BasicBlock \<Rightarrow> BasicBlock) \<Rightarrow> Store \<Rightarrow> Store" where
  "update_block b f s = s\<lparr>blocks := (blocks s)(b := map_option f (blocks s b))\<rparr>"

text \<open>The part of \<^verbatim>\<open>AddInst\<close> before the \<^verbatim>\<open>switch\<close> over the opcode.\<close>

definition AddInst_begin :: "bb_ref \<Rightarrow> BasicBlock \<Rightarrow> LLInstr \<Rightarrow> Store \<Rightarrow> Store" where
  "AddInst_begin this B instr s0 =
     (let s1 = SetCurrent this B s0;
          rip = addr instr + of_nat (len instr);
          ripValue = ConstantInt 64 (unat rip);
          s2 = update_block this
                 (\<lambda>B. B\<lparr>regfile := SetReg (regfile B) (LLReg LL_RT_IP 0) I64 ripValue True\<rparr>) s1;
          s3 = snd (Insert CallDoNothing s2);
          (sel, s4) = Insert (SelectInst getFalse ripValue ripValue) s3
      in update_block this (\<lambda>B. B\<lparr>new_rip := Some (Inst sel)\<rparr>) s4)"

definition AddInst :: "(nat \<Rightarrow> handler option) \<Rightarrow> bb_ref \<Rightarrow> LLInstr \<Rightarrow> Store \<Rightarrow> error + Store" where
  "AddInst opcodes this instr s0 =
     (case blocks s0 this of
        None \<Rightarrow> Inl NullPointer
      | Some B \<Rightarrow>
          let s = AddInst_begin this B instr s0 in
          (case opcodes (type instr) of
             Some handle \<Rightarrow> handle instr this s
           | None \<Rightarrow> warn_if_reached (CouldNotHandle (addr instr))))"

subsection \<open>\<^verbatim>\<open>BasicBlock::AddPhis\<close>\<close>

text \<open>
  The loops of \<^verbatim>\<open>AddPhis\<close> write fields of \<open>this\<close> and create instructions; they touch
  no other block. They run on the pair of the block and the store, and the block is
  written back at the end.
\<close>

definition AddPhis_gp :: "nat \<Rightarrow> Facet \<Rightarrow> BasicBlock \<times> Store \<Rightarrow> BasicBlock \<times> Store" where
  "AddPhis_gp i facet = (\<lambda>(B, s).
     let (phiNode, s') = Insert (PHINode (Facet_Type facet) []) s in
     (B\<lparr>regfile := SetReg (regfile B) (LLReg LL_RT_GP64 i) facet (Inst phiNode) False,
        phis_gp := (phis_gp B)
          (i := (phis_gp B i)\<lparr>at_facet := (at_facet (phis_gp B i))(facet \<mapsto> Inst phiNode)\<rparr>)\<rparr>,
      s'))"

definition AddPhis_sse :: "nat \<Rightarrow> Facet \<Rightarrow> BasicBlock \<times> Store \<Rightarrow> BasicBlock \<times> Store" where
  "AddPhis_sse i facet = (\<lambda>(B, s).
     let (phiNode, s') = Insert (PHINode (Facet_Type facet) []) s in
     (B\<lparr>regfile := SetReg (regfile B) (LLReg LL_RT_XMM i) facet (Inst phiNode) False,
        phis_sse := (phis_sse B)
          (i := (phis_sse B i)\<lparr>at_facet := (at_facet (phis_sse B i))(facet \<mapsto> Inst phiNode)\<rparr>)\<rparr>,
      s'))"

definition AddPhis_flag :: "nat \<Rightarrow> BasicBlock \<times> Store \<Rightarrow> BasicBlock \<times> Store" where
  "AddPhis_flag i = (\<lambda>(B, s).
     let (phiNode, s') = Insert (PHINode (IntegerTy 1) []) s in
     (B\<lparr>regfile := SetFlag (regfile B) i (Inst phiNode),
        phiFlags := (phiFlags B)(i \<mapsto> phiNode)\<rparr>,
      s'))"

definition AddPhis :: "bb_ref \<Rightarrow> Store \<Rightarrow> error + Store" where
  "AddPhis this s0 =
     (case blocks s0 this of
        None \<Rightarrow> Inl NullPointer
      | Some B0 \<Rightarrow>
          let s = SetCurrent this B0 s0;
              st1 = fold (\<lambda>i st. fold (AddPhis_gp i) (facets (phis_gp (fst st) i)) st)
                      [0..<LL_RI_GPMax] (B0, s);
              st2 = fold (\<lambda>i st. fold (AddPhis_sse i) (facets (phis_sse (fst st) i)) st)
                      [0..<LL_RI_XMMMax] st1;
              (B, s') = fold AddPhis_flag [0..<RFLAG_Max] st2
          in Inr (s'\<lparr>blocks := (blocks s')(this \<mapsto> B)\<rparr>))"

subsection \<open>\<^verbatim>\<open>BasicBlock::FillPhis\<close>\<close>

text \<open>A loop whose body can fail stops at the first failure.\<close>

fun foldE :: "('a \<Rightarrow> 's \<Rightarrow> error + 's) \<Rightarrow> 'a list \<Rightarrow> 's \<Rightarrow> error + 's" where
  "foldE f [] s = Inr s"
| "foldE f (x # xs) s = bindE (f x s) (foldE f xs)"

text \<open>
  \<^verbatim>\<open>llvm::cast<llvm::PHINode>(v)\<close> asserts that \<open>v\<close> is a non-null pointer to a PHI node.
\<close>

definition cast_PHINode :: "Store \<Rightarrow> Value option \<Rightarrow> error + inst_ref" where
  "cast_PHINode s v =
     (case v of
        Some (Inst k) \<Rightarrow> (case insts s k of Some (PHINode ty inc) \<Rightarrow> Inr k | _ \<Rightarrow> Inl BadCast)
      | _ \<Rightarrow> Inl BadCast)"

text \<open>
  \<^verbatim>\<open>phi->addIncoming(value, bb)\<close> appends one (value, block) pair to the node. It needs a
  PHI node behind the pointer, and LLVM asserts that the value is not null.
\<close>

definition addIncoming :: "inst_ref option \<Rightarrow> Value option \<Rightarrow> llbb \<Rightarrow> Store \<Rightarrow> error + Store" where
  "addIncoming phi v bb s =
     (case phi of
        None \<Rightarrow> Inl NullPointer
      | Some k \<Rightarrow>
          (case insts s k of
             Some (PHINode ty inc) \<Rightarrow>
               (case v of
                  None \<Rightarrow> Inl AssertionFailed
                | Some v' \<Rightarrow> Inr (s\<lparr>insts := (insts s)(k \<mapsto> PHINode ty (inc @ [(v', bb)]))\<rparr>))
           | _ \<Rightarrow> Inl NullPointer))"

definition FillPhis_gp :: "BasicBlock \<Rightarrow> BasicBlock \<Rightarrow> nat \<Rightarrow> Facet \<Rightarrow> Store \<Rightarrow> error + Store" where
  "FillPhis_gp B pred j facet s =
     bindE (cast_PHINode s (at_facet (phis_gp B j) facet)) (\<lambda>phi.
       addIncoming (Some phi) (GetReg (regfile pred) (LLReg LL_RT_GP64 j) facet) (llvmBB pred) s)"

definition FillPhis_sse :: "BasicBlock \<Rightarrow> BasicBlock \<Rightarrow> nat \<Rightarrow> Facet \<Rightarrow> Store \<Rightarrow> error + Store" where
  "FillPhis_sse B pred j facet s =
     bindE (cast_PHINode s (at_facet (phis_sse B j) facet)) (\<lambda>phi.
       addIncoming (Some phi) (GetReg (regfile pred) (LLReg LL_RT_XMM j) facet) (llvmBB pred) s)"

definition FillPhis_flag :: "BasicBlock \<Rightarrow> BasicBlock \<Rightarrow> nat \<Rightarrow> Store \<Rightarrow> error + Store" where
  "FillPhis_flag B pred j s =
     addIncoming (phiFlags B j) (GetFlag (regfile pred) j) (llvmBB pred) s"

definition FillPhis_pred :: "BasicBlock \<Rightarrow> bb_ref \<Rightarrow> Store \<Rightarrow> error + Store" where
  "FillPhis_pred B p s =
     (case blocks s p of
        None \<Rightarrow> Inl NullPointer
      | Some pred \<Rightarrow>
          bindE (foldE (\<lambda>j. foldE (FillPhis_gp B pred j) (facets (phis_gp B j)))
                   [0..<LL_RI_GPMax] s) (\<lambda>s1.
          bindE (foldE (\<lambda>j. foldE (FillPhis_sse B pred j) (facets (phis_sse B j)))
                   [0..<LL_RI_XMMMax] s1) (\<lambda>s2.
          foldE (FillPhis_flag B pred) [0..<RFLAG_Max] s2)))"

definition FillPhis :: "bb_ref \<Rightarrow> Store \<Rightarrow> error + Store" where
  "FillPhis this s0 =
     (case blocks s0 this of
        None \<Rightarrow> Inl NullPointer
      | Some B \<Rightarrow> foldE (FillPhis_pred B) (preds B) (s0\<lparr>state_regfile := None\<rparr>))"

subsection \<open>The placeholders of a block\<close>

text \<open>
  The three loop nests of \<^verbatim>\<open>AddPhis\<close> and of \<^verbatim>\<open>FillPhis\<close> visit the same places: every
  (general-purpose register, facet) and (vector register, facet) pair that the block
  requires, and every flag. A \<open>slot\<close> names one such place; \<open>slots B\<close> lists them in the
  order of the loops.
\<close>

datatype slot = GpSlot nat Facet | SseSlot nat Facet | FlagSlot nat

definition slots :: "BasicBlock \<Rightarrow> slot list" where
  "slots B =
     concat (map (\<lambda>i. map (GpSlot i) (facets (phis_gp B i))) [0..<LL_RI_GPMax]) @
     concat (map (\<lambda>i. map (SseSlot i) (facets (phis_sse B i))) [0..<LL_RI_XMMMax]) @
     map FlagSlot [0..<RFLAG_Max]"

text \<open>The pointer to the PHI node that the block keeps for a slot.\<close>

fun slot_phi :: "BasicBlock \<Rightarrow> slot \<Rightarrow> Value option" where
  "slot_phi B (GpSlot i f) = at_facet (phis_gp B i) f"
| "slot_phi B (SseSlot i f) = at_facet (phis_sse B i) f"
| "slot_phi B (FlagSlot i) = map_option Inst (phiFlags B i)"

text \<open>What a register file holds for a slot.\<close>

fun slot_value :: "RegFile \<Rightarrow> slot \<Rightarrow> Value option" where
  "slot_value rf (GpSlot i f) = GetReg rf (LLReg LL_RT_GP64 i) f"
| "slot_value rf (SseSlot i f) = GetReg rf (LLReg LL_RT_XMM i) f"
| "slot_value rf (FlagSlot i) = GetFlag rf i"

text \<open>The type of the PHI node of a slot: the facet's catalog type, one bit for a flag.\<close>

fun slot_type :: "slot \<Rightarrow> LLType" where
  "slot_type (GpSlot i f) = Facet_Type f"
| "slot_type (SseSlot i f) = Facet_Type f"
| "slot_type (FlagSlot i) = IntegerTy 1"

text \<open>The loop bodies of \<^verbatim>\<open>AddPhis\<close> and \<^verbatim>\<open>FillPhis\<close>, by slot.\<close>

fun AddPhis_slot :: "slot \<Rightarrow> BasicBlock \<times> Store \<Rightarrow> BasicBlock \<times> Store" where
  "AddPhis_slot (GpSlot i f) = AddPhis_gp i f"
| "AddPhis_slot (SseSlot i f) = AddPhis_sse i f"
| "AddPhis_slot (FlagSlot i) = AddPhis_flag i"

fun FillPhis_slot :: "BasicBlock \<Rightarrow> BasicBlock \<Rightarrow> slot \<Rightarrow> Store \<Rightarrow> error + Store" where
  "FillPhis_slot B pred (GpSlot j f) = FillPhis_gp B pred j f"
| "FillPhis_slot B pred (SseSlot j f) = FillPhis_sse B pred j f"
| "FillPhis_slot B pred (FlagSlot j) = FillPhis_flag B pred j"

text \<open>
  \<open>placeholder s B sl inc\<close>: in store \<open>s\<close> the pointer that block \<open>B\<close> keeps for slot \<open>sl\<close>
  points at a PHI node whose incoming (value, block) pairs are \<open>inc\<close>, in this order.
\<close>

definition placeholder :: "Store \<Rightarrow> BasicBlock \<Rightarrow> slot \<Rightarrow> (Value \<times> llbb) list \<Rightarrow> bool" where
  "placeholder s B sl inc =
     (case slot_phi B sl of
        Some (Inst k) \<Rightarrow> (case insts s k of Some (PHINode ty inc') \<Rightarrow> inc' = inc | _ \<Rightarrow> False)
      | _ \<Rightarrow> False)"

text \<open>
  The input that predecessor \<open>p\<close> contributes to the placeholder of a slot: the value its
  register file holds for the slot, with its LLVM block.
\<close>

definition incoming_from :: "Store \<Rightarrow> slot \<Rightarrow> bb_ref \<Rightarrow> (Value \<times> llbb) option" where
  "incoming_from s sl p =
     (case blocks s p of
        None \<Rightarrow> None
      | Some P \<Rightarrow> (case slot_value (regfile P) sl of None \<Rightarrow> None | Some v \<Rightarrow> Some (v, llvmBB P)))"

text \<open>
  The facet-requirement set of a block: the (register, facet) pairs for which the loops
  of \<^verbatim>\<open>AddPhis\<close> create a PHI node.
\<close>

fun required :: "BasicBlock \<Rightarrow> LLReg \<Rightarrow> Facet \<Rightarrow> bool" where
  "required B (LLReg LL_RT_GP64 i) f = (i < LL_RI_GPMax \<and> f \<in> set (facets (phis_gp B i)))"
| "required B (LLReg LL_RT_XMM i) f = (i < LL_RI_XMMMax \<and> f \<in> set (facets (phis_sse B i)))"
| "required B (LLReg LL_RT_IP i) f = False"

subsection \<open>Example stores\<close>

definition no_regs :: RegFile where
  "no_regs = \<lparr>regs = (\<lambda>_. None), rflags = (\<lambda>_. None)\<rparr>"

definition no_phis :: PhiMap where
  "no_phis = \<lparr>facets = [], at_facet = (\<lambda>_. None)\<rparr>"

definition fresh_block :: "llbb \<Rightarrow> BasicBlock" where
  "fresh_block bb =
     \<lparr>llvmBB = bb, regfile = no_regs, phis_gp = (\<lambda>_. no_phis), phis_sse = (\<lambda>_. no_phis),
      phiFlags = (\<lambda>_. None), preds = [], nextBranch = None, nextFallThrough = None,
      new_rip = None\<rparr>"

text \<open>
  A block with LLVM block 10, the given branch selector and the given taken-branch and
  fall-through successors.
\<close>

definition entry_block :: "Value option \<Rightarrow> bb_ref option \<Rightarrow> bb_ref option \<Rightarrow> BasicBlock" where
  "entry_block rip br ft =
     (fresh_block 10)\<lparr>nextBranch := br, nextFallThrough := ft, new_rip := rip\<rparr>"

text \<open>
  Three blocks 0, 1, 2 with LLVM blocks 10, 11, 12. Block 0 is the parameter; address 0
  holds a select whose condition is the other parameter, already emitted into block 10.
\<close>

definition example_store :: "BasicBlock \<Rightarrow> Value \<Rightarrow> Store" where
  "example_store B c =
     \<lparr>blocks = (\<lambda>_. None)(0 \<mapsto> B, 1 \<mapsto> fresh_block 11, 2 \<mapsto> fresh_block 12),
      insts = (\<lambda>_. None)(0 \<mapsto> SelectInst c (ConstantInt 64 4096) (ConstantInt 64 4100)),
      next_inst = 1,
      contents = (\<lambda>_. [])(10 := [0]),
      insert_block = None,
      state_regfile = None\<rparr>"

text \<open>
  A three-byte instruction at address 4096 with opcode 7, and a handler that leaves the
  store as it is.
\<close>

definition example_instr :: LLInstr where
  "example_instr = \<lparr>addr = 4096, len = 3, type = 7\<rparr>"

definition nop_handler :: handler where
  "nop_handler instr this s = Inr s"

text \<open>
  A loop: block 0 (LLVM block 10) requires the facets \<^verbatim>\<open>I64\<close> and \<^verbatim>\<open>I32\<close> of
  general-purpose register 0 and has two predecessors, itself and block 2 (LLVM block
  12), whose register file holds a value for every register, facet and flag.
\<close>

definition loop_block :: BasicBlock where
  "loop_block =
     (fresh_block 10)
       \<lparr>phis_gp := (\<lambda>i. if i = 0 then \<lparr>facets = [I64, I32], at_facet = (\<lambda>_. None)\<rparr> else no_phis),
        preds := [0, 2]\<rparr>"

definition filled_block :: BasicBlock where
  "filled_block =
     (fresh_block 12)
       \<lparr>regfile := \<lparr>regs = (\<lambda>_. Some (Argument 0)), rflags = (\<lambda>_. Some (Argument 1))\<rparr>\<rparr>"

definition loop_store :: Store where
  "loop_store =
     \<lparr>blocks = (\<lambda>_. None)(0 \<mapsto> loop_block, 2 \<mapsto> filled_block),
      insts = (\<lambda>_. None),
      next_inst = 0,
      contents = (\<lambda>_. []),
      insert_block = None,
      state_regfile = None\<rparr>"

section \<open>Theorems\<close>

lemma dyn_cast_SetCurrent [simp]:
  "dyn_cast_SelectInst (SetCurrent this B s) v = dyn_cast_SelectInst s v"
  by (simp add: dyn_cast_SelectInst_def SetCurrent_def split: Value.split)

lemma deref_SetCurrent [simp]:
  "deref_llvmBB (SetCurrent this B s) p = deref_llvmBB s p"
  by (simp add: deref_llvmBB_def SetCurrent_def split: option.split)

lemma deref_Some:
  "blocks s b = Some X \<Longrightarrow> deref_llvmBB s (Some b) = Inr (llvmBB X)"
  by (simp add: deref_llvmBB_def)

lemma emitted_CreateBr:
  "emitted s (CreateBr t (SetCurrent this B s)) (llvmBB B) = [Some (Br t)]"
  by (simp add: emitted_def CreateBr_def Insert_def SetCurrent_def Let_def)

lemma emitted_CreateCondBr:
  "emitted s (CreateCondBr c t f (SetCurrent this B s)) (llvmBB B) = [Some (CondBr c t f)]"
  by (simp add: emitted_def CreateCondBr_def Insert_def SetCurrent_def Let_def)

subsection \<open>Terminator resolution\<close>

text \<open>
  Claim C4. \<^verbatim>\<open>Terminate\<close> follows the decision table for the unconditional rows: when
  the branch selector was never initialized (\<^verbatim>\<open>new_rip\<close> is null) it emits into the
  block one unconditional jump to the fall-through successor; when the selector is a
  select whose condition is the integer constant zero (compile-time false) it emits one
  unconditional jump to the fall-through successor; when the condition is a non-zero
  integer constant (compile-time true) it emits one unconditional jump to the
  taken-branch successor. In each row the successor the jump needs is registered.
\<close>

theorem Terminate_unconditional:
  assumes "blocks s this = Some B"
  shows "(new_rip B = None \<and> nextFallThrough B = Some ft \<and> blocks s ft = Some F \<longrightarrow>
            (\<exists>s'. Terminate this s = Inr s' \<and> emitted s s' (llvmBB B) = [Some (Br (llvmBB F))]))
       \<and> (new_rip B = Some v \<and> dyn_cast_SelectInst s v = Some (ConstantInt w 0, tv, fv) \<and>
          nextFallThrough B = Some ft \<and> blocks s ft = Some F \<longrightarrow>
            (\<exists>s'. Terminate this s = Inr s' \<and> emitted s s' (llvmBB B) = [Some (Br (llvmBB F))]))
       \<and> (new_rip B = Some v \<and> dyn_cast_SelectInst s v = Some (ConstantInt w n, tv, fv) \<and> n \<noteq> 0 \<and>
          nextBranch B = Some br \<and> blocks s br = Some T \<longrightarrow>
            (\<exists>s'. Terminate this s = Inr s' \<and> emitted s s' (llvmBB B) = [Some (Br (llvmBB T))]))"
  using assms
  by (simp add: Terminate_def Let_def deref_Some emitted_CreateBr)

lemma example_blocks [simp]:
  "blocks (example_store B c) 0 = Some B"
  "blocks (example_store B c) (Suc 0) = Some (fresh_block 11)"
  "blocks (example_store B c) 2 = Some (fresh_block 12)"
  by (simp_all add: example_store_def)

lemma example_select [simp]:
  "dyn_cast_SelectInst (example_store B c) (Inst 0) = Some (c, ConstantInt 64 4096, ConstantInt 64 4100)"
  by (simp add: example_store_def dyn_cast_SelectInst_def)

lemma entry_block_sel [simp]:
  "new_rip (entry_block rip br ft) = rip"
  "nextBranch (entry_block rip br ft) = br"
  "nextFallThrough (entry_block rip br ft) = ft"
  "llvmBB (entry_block rip br ft) = 10"
  "llvmBB (fresh_block bb) = bb"
  by (simp_all add: entry_block_def fresh_block_def)

text \<open>The three rows on the example store: selector null, constant false, constant true.\<close>

theorem Terminate_unconditional_witness:
  "(\<exists>s'. Terminate 0 (example_store (entry_block None (Some 1) (Some 2)) getFalse) = Inr s' \<and>
         emitted (example_store (entry_block None (Some 1) (Some 2)) getFalse) s' 10 = [Some (Br 12)])
 \<and> (\<exists>s'. Terminate 0 (example_store (entry_block (Some (Inst 0)) (Some 1) (Some 2)) (ConstantInt 1 0)) = Inr s' \<and>
         emitted (example_store (entry_block (Some (Inst 0)) (Some 1) (Some 2)) (ConstantInt 1 0)) s' 10 = [Some (Br 12)])
 \<and> (\<exists>s'. Terminate 0 (example_store (entry_block (Some (Inst 0)) (Some 1) (Some 2)) (ConstantInt 1 1)) = Inr s' \<and>
         emitted (example_store (entry_block (Some (Inst 0)) (Some 1) (Some 2)) (ConstantInt 1 1)) s' 10 = [Some (Br 11)])"
  using
    Terminate_unconditional [where s = "example_store (entry_block None (Some 1) (Some 2)) getFalse"
      and this = 0 and B = "entry_block None (Some 1) (Some 2)" and ft = 2 and F = "fresh_block 12"]
    Terminate_unconditional [where s = "example_store (entry_block (Some (Inst 0)) (Some 1) (Some 2)) (ConstantInt 1 0)"
      and this = 0 and B = "entry_block (Some (Inst 0)) (Some 1) (Some 2)" and ft = 2 and F = "fresh_block 12"
      and v = "Inst 0" and w = 1 and tv = "ConstantInt 64 4096" and fv = "ConstantInt 64 4100"]
    Terminate_unconditional [where s = "example_store (entry_block (Some (Inst 0)) (Some 1) (Some 2)) (ConstantInt 1 1)"
      and this = 0 and B = "entry_block (Some (Inst 0)) (Some 1) (Some 2)" and br = 1 and T = "fresh_block 11"
      and v = "Inst 0" and w = 1 and n = 1 and tv = "ConstantInt 64 4096" and fv = "ConstantInt 64 4100"]
  by simp

text \<open>
  Claim C5. When the condition of the branch selector is a runtime value (not a
  constant, not undef), \<^verbatim>\<open>Terminate\<close> emits one two-way conditional jump on that
  condition whose targets are the LLVM blocks of the registered taken-branch successor
  and of the registered fall-through successor, in this order; with either successor
  unregistered the assertion fails and no store is returned.
\<close>

theorem Terminate_conditional:
  assumes "blocks s this = Some B" and "new_rip B = Some v"
    and "dyn_cast_SelectInst s v = Some (cond, tv, fv)"
    and "\<not> isa_Constant cond" and "\<not> isa_UndefValue cond"
  shows "(nextBranch B = Some br \<and> blocks s br = Some T \<and>
          nextFallThrough B = Some ft \<and> blocks s ft = Some F \<longrightarrow>
            (\<exists>s'. Terminate this s = Inr s' \<and>
                  emitted s s' (llvmBB B) = [Some (CondBr cond (llvmBB T) (llvmBB F))]))
       \<and> (nextBranch B = None \<or> nextFallThrough B = None \<longrightarrow>
            Terminate this s = Inl AssertionFailed)"
  using assms
  by (auto simp add: Terminate_def Let_def deref_Some emitted_CreateCondBr)

text \<open>
  A function argument as condition: both successors registered, then the fall-through
  successor missing, then the taken-branch successor missing.
\<close>

theorem Terminate_conditional_witness:
  "(\<exists>s'. Terminate 0 (example_store (entry_block (Some (Inst 0)) (Some 1) (Some 2)) (Argument 0)) = Inr s' \<and>
         emitted (example_store (entry_block (Some (Inst 0)) (Some 1) (Some 2)) (Argument 0)) s' 10
           = [Some (CondBr (Argument 0) 11 12)])
 \<and> Terminate 0 (example_store (entry_block (Some (Inst 0)) (Some 1) None) (Argument 0)) = Inl AssertionFailed
 \<and> Terminate 0 (example_store (entry_block (Some (Inst 0)) None (Some 2)) (Argument 0)) = Inl AssertionFailed"
  using
    Terminate_conditional [where s = "example_store (entry_block (Some (Inst 0)) (Some 1) (Some 2)) (Argument 0)"
      and this = 0 and B = "entry_block (Some (Inst 0)) (Some 1) (Some 2)" and v = "Inst 0"
      and cond = "Argument 0" and tv = "ConstantInt 64 4096" and fv = "ConstantInt 64 4100"
      and br = 1 and T = "fresh_block 11" and ft = 2 and F = "fresh_block 12"]
    Terminate_conditional [where s = "example_store (entry_block (Some (Inst 0)) (Some 1) None) (Argument 0)"
      and this = 0 and B = "entry_block (Some (Inst 0)) (Some 1) None" and v = "Inst 0"
      and cond = "Argument 0" and tv = "ConstantInt 64 4096" and fv = "ConstantInt 64 4100"]
    Terminate_conditional [where s = "example_store (entry_block (Some (Inst 0)) None (Some 2)) (Argument 0)"
      and this = 0 and B = "entry_block (Some (Inst 0)) None (Some 2)" and v = "Inst 0"
      and cond = "Argument 0" and tv = "ConstantInt 64 4096" and fv = "ConstantInt 64 4100"]
  by simp

text \<open>
  Claim C10. When the branch selector is not null and does not point at a select
  instruction, \<^verbatim>\<open>Terminate\<close> returns normally and has emitted nothing: no instruction is
  created, the contents of every LLVM block are as before, and no block is changed.
\<close>

theorem Terminate_not_select:
  assumes "blocks s this = Some B" and "new_rip B = Some v"
    and "dyn_cast_SelectInst s v = None"
  shows "\<exists>s'. Terminate this s = Inr s' \<and> insts s' = insts s \<and> next_inst s' = next_inst s \<and>
              contents s' = contents s \<and> blocks s' = blocks s"
  using assms
  by (simp add: Terminate_def Let_def) (simp add: SetCurrent_def)

text \<open>The selector of block 0 is the plain constant 4096.\<close>

theorem Terminate_not_select_witness:
  "\<exists>s'. Terminate 0 (example_store (entry_block (Some (ConstantInt 64 4096)) (Some 1) (Some 2)) getFalse) = Inr s' \<and>
        insts s' = insts (example_store (entry_block (Some (ConstantInt 64 4096)) (Some 1) (Some 2)) getFalse) \<and>
        next_inst s' = 1 \<and>
        contents s' 10 = [0] \<and>
        blocks s' = blocks (example_store (entry_block (Some (ConstantInt 64 4096)) (Some 1) (Some 2)) getFalse)"
  using Terminate_not_select [where s = "example_store (entry_block (Some (ConstantInt 64 4096)) (Some 1) (Some 2)) getFalse"
      and this = 0 and B = "entry_block (Some (ConstantInt 64 4096)) (Some 1) (Some 2)" and v = "ConstantInt 64 4096"]
  by (simp add: dyn_cast_SelectInst_def) (auto simp add: example_store_def)

text \<open>
  A select whose condition is undef takes the branch for constants: with a registered
  taken-branch successor the block gets an unconditional jump to it.
\<close>

lemma Terminate_undef_condition:
  assumes "blocks s this = Some B" and "new_rip B = Some v"
    and "dyn_cast_SelectInst s v = Some (UndefValue, tv, fv)"
    and "nextBranch B = Some br" and "blocks s br = Some T"
  shows "\<exists>s'. Terminate this s = Inr s' \<and> emitted s s' (llvmBB B) = [Some (Br (llvmBB T))]"
  using assms
  by (simp add: Terminate_def Let_def deref_Some emitted_CreateBr)

text \<open>
  Claim C1 says that for a select whose condition is undef \<^verbatim>\<open>Terminate\<close> emits no
  terminator. The source tests \<^verbatim>\<open>dyn_cast<Constant>(cond)\<close> first and reaches
  \<^verbatim>\<open>!isa<UndefValue>(cond)\<close> only for a condition that is not a constant; undef is a
  constant that is not the null value, so the first test takes it and the block gets an
  unconditional jump to the taken-branch successor. On the example store, whose block 0
  has the successors 1 and 2 (LLVM blocks 11 and 12):
\<close>

theorem Terminate_undef_emits_branch:
  "\<exists>s'. Terminate 0 (example_store (entry_block (Some (Inst 0)) (Some 1) (Some 2)) UndefValue) = Inr s' \<and>
        emitted (example_store (entry_block (Some (Inst 0)) (Some 1) (Some 2)) UndefValue) s' 10 = [Some (Br 11)]"
  by (simp add: Terminate_def Let_def deref_Some
      emitted_CreateBr [where B = "entry_block (Some (Inst 0)) (Some (Suc 0)) (Some 2)", simplified])

subsection \<open>Edge registration\<close>

lemma AddBranches_once:
  assumes "blocks s this \<noteq> None"
    and "\<forall>b. branch = Some b \<longrightarrow> blocks s b \<noteq> None"
    and "\<forall>b. fallThrough = Some b \<longrightarrow> blocks s b \<noteq> None"
  shows "\<exists>s'. AddBranches this branch fallThrough s = Inr s' \<and>
     (\<forall>x. blocks s' x = map_option (\<lambda>X. X\<lparr>preds := preds X @ appended this branch fallThrough x,
               nextBranch := (if x = this \<and> branch \<noteq> None then branch else nextBranch X),
               nextFallThrough := (if x = this \<and> fallThrough \<noteq> None then fallThrough
                                   else nextFallThrough X)\<rparr>) (blocks s x))"
proof (cases branch)
  case None
  note br = this
  show ?thesis
  proof (cases fallThrough)
    case None
    with br assms show ?thesis
      by (auto simp add: AddBranches_def bindE_def appended_def map_option_case split: option.split)
  next
    case (Some ft)
    with br assms show ?thesis
      by (auto simp add: AddBranches_def bindE_def map_block_def appended_def map_option_case split: option.split)
  qed
next
  case (Some b)
  note br = this
  show ?thesis
  proof (cases fallThrough)
    case None
    with br assms show ?thesis
      by (auto simp add: AddBranches_def bindE_def map_block_def appended_def map_option_case split: option.split)
  next
    case (Some ft)
    with br assms show ?thesis
      by (auto simp add: AddBranches_def bindE_def map_block_def appended_def map_option_case split: option.split)
  qed
qed

text \<open>
  Claim C9. \<^verbatim>\<open>AddBranches\<close>, called on \<open>this\<close> with arguments that are null or point at
  blocks, appends \<open>this\<close> to the predecessor list of a block once for each argument that
  is this block, and records each argument that is not null as the taken-branch
  respectively fall-through successor of \<open>this\<close>; nothing else changes in any block's
  predecessor list or successors. It is not idempotent: a second call with the same
  arguments appends the same entries again, so that a successor then lists \<open>this\<close> twice.
\<close>

theorem AddBranches_appends:
  assumes "blocks s this \<noteq> None"
    and "\<forall>b. branch = Some b \<longrightarrow> blocks s b \<noteq> None"
    and "\<forall>b. fallThrough = Some b \<longrightarrow> blocks s b \<noteq> None"
  shows "\<exists>s' s''. AddBranches this branch fallThrough s = Inr s' \<and>
                  AddBranches this branch fallThrough s' = Inr s'' \<and>
      (\<forall>x X. blocks s x = Some X \<longrightarrow> (\<exists>X' X''. blocks s' x = Some X' \<and> blocks s'' x = Some X'' \<and>
          preds X' = preds X @ appended this branch fallThrough x \<and>
          preds X'' = preds X @ appended this branch fallThrough x @ appended this branch fallThrough x \<and>
          nextBranch X' = (if x = this \<and> branch \<noteq> None then branch else nextBranch X) \<and>
          nextFallThrough X' = (if x = this \<and> fallThrough \<noteq> None then fallThrough
                                else nextFallThrough X)))"
proof -
  from AddBranches_once [OF assms] obtain s' where
    r1: "AddBranches this branch fallThrough s = Inr s'" and
    b1: "\<forall>x. blocks s' x = map_option (\<lambda>X. X\<lparr>preds := preds X @ appended this branch fallThrough x,
               nextBranch := (if x = this \<and> branch \<noteq> None then branch else nextBranch X),
               nextFallThrough := (if x = this \<and> fallThrough \<noteq> None then fallThrough
                                   else nextFallThrough X)\<rparr>) (blocks s x)"
    by blast
  from b1 assms have a1: "blocks s' this \<noteq> None"
    and a2: "\<forall>b. branch = Some b \<longrightarrow> blocks s' b \<noteq> None"
    and a3: "\<forall>b. fallThrough = Some b \<longrightarrow> blocks s' b \<noteq> None"
    by simp_all
  from AddBranches_once [OF a1 a2 a3] obtain s'' where
    r2: "AddBranches this branch fallThrough s' = Inr s''" and
    b2: "\<forall>x. blocks s'' x = map_option (\<lambda>X. X\<lparr>preds := preds X @ appended this branch fallThrough x,
               nextBranch := (if x = this \<and> branch \<noteq> None then branch else nextBranch X),
               nextFallThrough := (if x = this \<and> fallThrough \<noteq> None then fallThrough
                                   else nextFallThrough X)\<rparr>) (blocks s' x)"
    by blast
  from r1 r2 b1 b2 show ?thesis by simp
qed


text \<open>
  Block 0 registers block 2 as taken branch and itself as fall-through, twice: after
  the second call both predecessor lists hold block 0 twice.
\<close>

theorem AddBranches_appends_witness:
  "\<exists>s' s'' X0 X0' X2 X2'.
     AddBranches 0 (Some 2) (Some 0) (example_store (fresh_block 10) getFalse) = Inr s' \<and>
     AddBranches 0 (Some 2) (Some 0) s' = Inr s'' \<and>
     blocks s' 2 = Some X2 \<and> preds X2 = [0] \<and> blocks s'' 2 = Some X2' \<and> preds X2' = [0, 0] \<and>
     blocks s' 0 = Some X0 \<and> preds X0 = [0] \<and> blocks s'' 0 = Some X0' \<and> preds X0' = [0, 0] \<and>
     nextBranch X0 = Some 2 \<and> nextFallThrough X0 = Some 0"
proof -
  let ?s = "example_store (fresh_block 10) getFalse"
  have h1: "blocks ?s 0 \<noteq> None"
    and h2: "\<forall>b. Some 2 = Some b \<longrightarrow> blocks ?s b \<noteq> None"
    and h3: "\<forall>b. Some 0 = Some b \<longrightarrow> blocks ?s b \<noteq> None"
    by (simp_all add: example_store_def)
  from AddBranches_appends [OF h1 h2 h3] obtain s' s'' where
    r: "AddBranches 0 (Some 2) (Some 0) ?s = Inr s'" "AddBranches 0 (Some 2) (Some 0) s' = Inr s''"
    and eff: "\<forall>x X. blocks ?s x = Some X \<longrightarrow> (\<exists>X' X''. blocks s' x = Some X' \<and> blocks s'' x = Some X'' \<and>
          preds X' = preds X @ appended 0 (Some 2) (Some 0) x \<and>
          preds X'' = preds X @ appended 0 (Some 2) (Some 0) x @ appended 0 (Some 2) (Some 0) x \<and>
          nextBranch X' = (if x = 0 \<and> Some (2::nat) \<noteq> None then Some 2 else nextBranch X) \<and>
          nextFallThrough X' = (if x = 0 \<and> Some (0::nat) \<noteq> None then Some 0
                                else nextFallThrough X))"
    by blast
  have b0: "blocks ?s 0 = Some (fresh_block 10)" and b2: "blocks ?s 2 = Some (fresh_block 12)"
    by (simp_all add: example_store_def)
  from eff b0 obtain X0 X0' where
    "blocks s' 0 = Some X0" "blocks s'' 0 = Some X0'" "preds X0 = [0]" "preds X0' = [0, 0]"
    "nextBranch X0 = Some 2" "nextFallThrough X0 = Some 0"
    by (fastforce simp add: appended_def fresh_block_def)
  moreover from eff b2 obtain X2 X2' where
    "blocks s' 2 = Some X2" "blocks s'' 2 = Some X2'" "preds X2 = [0]" "preds X2' = [0, 0]"
    by (fastforce simp add: appended_def fresh_block_def)
  ultimately show ?thesis using r by blast
qed

subsection \<open>Instruction translation\<close>

lemma unat_next_address:
  "unat ((a :: 64 word) + of_nat n) = (unat a + n) mod 2 ^ 64"
  by (simp add: unat_word_ariths unat_of_nat mod_add_right_eq)

lemma AddInst_begin_effect:
  assumes "blocks s this = Some B"
  shows "\<exists>B1. blocks (AddInst_begin this B instr s) this = Some B1 \<and>
      regfile B1 = SetReg (regfile B) (LLReg LL_RT_IP 0) I64
                     (ConstantInt 64 (unat (addr instr + of_nat (len instr)))) True \<and>
      new_rip B1 = Some (Inst (Suc (next_inst s))) \<and>
      llvmBB B1 = llvmBB B"
    and "emitted s (AddInst_begin this B instr s) (llvmBB B) =
      [Some CallDoNothing,
       Some (SelectInst getFalse (ConstantInt 64 (unat (addr instr + of_nat (len instr))))
                                 (ConstantInt 64 (unat (addr instr + of_nat (len instr)))))]"
    and "dyn_cast_SelectInst (AddInst_begin this B instr s) (Inst (Suc (next_inst s))) =
      Some (getFalse, ConstantInt 64 (unat (addr instr + of_nat (len instr))),
                      ConstantInt 64 (unat (addr instr + of_nat (len instr))))"
  using assms
  by (simp_all add: AddInst_begin_def Let_def SetCurrent_def update_block_def Insert_def
      emitted_def dyn_cast_SelectInst_def split_def)

text \<open>
  Claim C6. Before \<^verbatim>\<open>AddInst\<close> dispatches on the opcode, it has computed the address of
  the next instruction as address plus length (in \<^verbatim>\<open>uintptr_t\<close>, so modulo \<open>2 ^ 64\<close>),
  written that 64-bit constant into facet \<^verbatim>\<open>I64\<close> of the instruction-pointer register
  with invalidation (every other facet of that register is dropped), emitted the call
  of \<^verbatim>\<open>llvm.donothing\<close> and after it a select with condition \<^verbatim>\<open>false\<close> whose two values
  are both the next address, and made that select the branch selector of the block. The
  handler, if the opcode has one, runs on the store \<open>s1\<close> in which all this is done.
\<close>

theorem AddInst_prologue:
  assumes "blocks s this = Some B"
    and "rip = ConstantInt 64 ((unat (addr instr) + len instr) mod 2 ^ 64)"
  shows "\<exists>s1 B1.
     AddInst opcodes this instr s =
       (case opcodes (type instr) of
          Some handle \<Rightarrow> handle instr this s1
        | None \<Rightarrow> Inl (CouldNotHandle (addr instr))) \<and>
     blocks s1 this = Some B1 \<and>
     regfile B1 = SetReg (regfile B) (LLReg LL_RT_IP 0) I64 rip True \<and>
     GetReg (regfile B1) (LLReg LL_RT_IP 0) I64 = Some rip \<and>
     (\<forall>f. f \<noteq> I64 \<longrightarrow> GetReg (regfile B1) (LLReg LL_RT_IP 0) f = None) \<and>
     emitted s s1 (llvmBB B) = [Some CallDoNothing, Some (SelectInst getFalse rip rip)] \<and>
     new_rip B1 = Some (Inst (Suc (next_inst s))) \<and>
     dyn_cast_SelectInst s1 (Inst (Suc (next_inst s))) = Some (getFalse, rip, rip)"
proof -
  note blk = assms(1)
  from AddInst_begin_effect(1) [OF blk, of instr] obtain B1 where
    B1: "blocks (AddInst_begin this B instr s) this = Some B1"
      "regfile B1 = SetReg (regfile B) (LLReg LL_RT_IP 0) I64
                     (ConstantInt 64 (unat (addr instr + of_nat (len instr)))) True"
      "new_rip B1 = Some (Inst (Suc (next_inst s)))"
    by blast
  have call: "AddInst opcodes this instr s =
       (case opcodes (type instr) of
          Some handle \<Rightarrow> handle instr this (AddInst_begin this B instr s)
        | None \<Rightarrow> Inl (CouldNotHandle (addr instr)))"
    using blk by (simp add: AddInst_def Let_def warn_if_reached_def split: option.split)
  have get: "GetReg (regfile B1) (LLReg LL_RT_IP 0) I64 =
               Some (ConstantInt 64 (unat (addr instr + of_nat (len instr))))"
    "\<forall>f. f \<noteq> I64 \<longrightarrow> GetReg (regfile B1) (LLReg LL_RT_IP 0) f = None"
    using B1(2) by (simp_all add: GetReg_def SetReg_def)
  show ?thesis
    using B1 call get AddInst_begin_effect(2,3) [OF blk, of instr] assms(2)
    by (intro exI [of _ "AddInst_begin this B instr s"] exI [of _ B1])
       (simp add: unat_next_address)
qed

text \<open>
  Claim C3. For an opcode outside the recognized set \<^verbatim>\<open>AddInst\<close> fails with the
  diagnostic that carries the address of the instruction. The failure is fatal: whatever
  would run next on the returned store (\<open>continue\<close>: the rest of the instruction stream,
  or \<^verbatim>\<open>Terminate\<close>) does not run, the failure is the result. Up to the failure
  \<^verbatim>\<open>AddInst\<close> has emitted no terminator into the block.
\<close>

theorem AddInst_unrecognized:
  assumes "blocks s this = Some B" and "opcodes (type instr) = None"
  shows "AddInst opcodes this instr s = Inl (CouldNotHandle (addr instr)) \<and>
         bindE (AddInst opcodes this instr s) continue = Inl (CouldNotHandle (addr instr)) \<and>
         bindE (AddInst opcodes this instr s) (Terminate this) = Inl (CouldNotHandle (addr instr)) \<and>
         (\<forall>i \<in> set (emitted s (AddInst_begin this B instr s) (llvmBB B)).
            \<exists>j. i = Some j \<and> \<not> is_terminator j)"
  using assms AddInst_begin_effect(2) [OF assms(1), of instr]
  by (simp add: AddInst_def Let_def warn_if_reached_def bindE_def)


text \<open>The instruction at 4096 of length 3, with a handler that does nothing: next address 4099.\<close>

theorem AddInst_prologue_witness:
  "\<exists>s1 B1.
     AddInst ((\<lambda>_. None)(7 \<mapsto> nop_handler)) 0 example_instr
       (example_store (fresh_block 10) getFalse) = Inr s1 \<and>
     blocks s1 0 = Some B1 \<and>
     GetReg (regfile B1) (LLReg LL_RT_IP 0) I64 = Some (ConstantInt 64 4099) \<and>
     GetReg (regfile B1) (LLReg LL_RT_IP 0) I32 = None \<and>
     emitted (example_store (fresh_block 10) getFalse) s1 10 =
       [Some CallDoNothing, Some (SelectInst getFalse (ConstantInt 64 4099) (ConstantInt 64 4099))] \<and>
     new_rip B1 = Some (Inst 2) \<and>
     dyn_cast_SelectInst s1 (Inst 2) = Some (getFalse, ConstantInt 64 4099, ConstantInt 64 4099)"
proof -
  let ?s = "example_store (fresh_block 10) getFalse"
  have h1: "blocks ?s 0 = Some (fresh_block 10)"
    by (simp add: example_store_def)
  have h2: "ConstantInt 64 4099 = ConstantInt 64 ((unat (addr example_instr) + len example_instr) mod 2 ^ 64)"
    by (simp add: example_instr_def)
  have n: "Suc (next_inst ?s) = 2" "llvmBB (fresh_block 10) = 10"
    by (simp_all add: example_store_def fresh_block_def)
  from AddInst_prologue [OF h1 h2, of "(\<lambda>_. None)(7 \<mapsto> nop_handler)"]
  show ?thesis
    unfolding n by (fastforce simp add: example_instr_def nop_handler_def)
qed

text \<open>Opcode 7 with a table that knows opcode 0 only.\<close>

theorem AddInst_unrecognized_witness:
  "AddInst ((\<lambda>_. None)(0 \<mapsto> nop_handler)) 0 example_instr
     (example_store (fresh_block 10) getFalse) = Inl (CouldNotHandle 4096) \<and>
   bindE (AddInst ((\<lambda>_. None)(0 \<mapsto> nop_handler)) 0 example_instr
     (example_store (fresh_block 10) getFalse)) (Terminate 0) = Inl (CouldNotHandle 4096)"
proof -
  let ?s = "example_store (fresh_block 10) getFalse"
  have h1: "blocks ?s 0 = Some (fresh_block 10)"
    by (simp add: example_store_def)
  have h2: "((\<lambda>_. None)(0 \<mapsto> nop_handler)) (type example_instr) = None"
    by (simp add: example_instr_def)
  have a: "addr example_instr = 4096"
    by (simp add: example_instr_def)
  from AddInst_unrecognized [where opcodes = "(\<lambda>_. None)(0 \<mapsto> nop_handler)"
      and instr = example_instr and continue = "Terminate 0", OF h1 h2]
  show ?thesis
    unfolding a by (elim conjE) (intro conjI)
qed

subsection \<open>Placeholder creation\<close>

text \<open>One step of a loop of \<^verbatim>\<open>AddPhis\<close>: what it does to the block and to the store.\<close>

lemma fst_AddPhis_step:
  "fst (AddPhis_gp i f st) =
     (fst st)\<lparr>regfile := SetReg (regfile (fst st)) (LLReg LL_RT_GP64 i) f (Inst (next_inst (snd st))) False,
        phis_gp := (phis_gp (fst st))
          (i := (phis_gp (fst st) i)\<lparr>at_facet := (at_facet (phis_gp (fst st) i))(f \<mapsto> Inst (next_inst (snd st)))\<rparr>)\<rparr>"
  "fst (AddPhis_sse i f st) =
     (fst st)\<lparr>regfile := SetReg (regfile (fst st)) (LLReg LL_RT_XMM i) f (Inst (next_inst (snd st))) False,
        phis_sse := (phis_sse (fst st))
          (i := (phis_sse (fst st) i)\<lparr>at_facet := (at_facet (phis_sse (fst st) i))(f \<mapsto> Inst (next_inst (snd st)))\<rparr>)\<rparr>"
  "fst (AddPhis_flag i st) =
     (fst st)\<lparr>regfile := SetFlag (regfile (fst st)) i (Inst (next_inst (snd st))),
        phiFlags := (phiFlags (fst st))(i \<mapsto> next_inst (snd st))\<rparr>"
  by (simp_all add: AddPhis_gp_def AddPhis_sse_def AddPhis_flag_def split_def Let_def Insert_def)

lemma regs_simps:
  "GetReg (SetReg rf r f v False) r' f' = (if r' = r \<and> f' = f then Some v else GetReg rf r' f')"
  "GetReg (SetFlag rf i v) r' f' = GetReg rf r' f'"
  "GetFlag (SetReg rf r f v b) j = GetFlag rf j"
  "GetFlag (SetFlag rf i v) j = (if j = i then Some v else GetFlag rf j)"
  by (simp_all add: GetReg_def SetReg_def GetFlag_def SetFlag_def)

lemma AddPhis_slot_store:
  "snd (AddPhis_slot sl st) = snd (Insert (PHINode (slot_type sl) []) (snd st))"
  by (cases sl)
     (simp_all add: AddPhis_gp_def AddPhis_sse_def AddPhis_flag_def split_def Let_def)

lemma AddPhis_slot_facets:
  "facets (phis_gp (fst (AddPhis_slot sl st)) i) = facets (phis_gp (fst st) i)"
  "facets (phis_sse (fst (AddPhis_slot sl st)) i) = facets (phis_sse (fst st) i)"
   apply (cases sl; simp add: fst_AddPhis_step)
  apply (cases sl; simp add: fst_AddPhis_step)
  done

lemma AddPhis_slot_frame:
  "llvmBB (fst (AddPhis_slot sl st)) = llvmBB (fst st)"
  "preds (fst (AddPhis_slot sl st)) = preds (fst st)"
  "nextBranch (fst (AddPhis_slot sl st)) = nextBranch (fst st)"
  "nextFallThrough (fst (AddPhis_slot sl st)) = nextFallThrough (fst st)"
  "new_rip (fst (AddPhis_slot sl st)) = new_rip (fst st)"
  "GetReg (regfile (fst (AddPhis_slot sl st))) (LLReg LL_RT_IP i) f
     = GetReg (regfile (fst st)) (LLReg LL_RT_IP i) f"
       apply (cases sl; simp add: fst_AddPhis_step)
      apply (cases sl; simp add: fst_AddPhis_step)
     apply (cases sl; simp add: fst_AddPhis_step)
    apply (cases sl; simp add: fst_AddPhis_step)
   apply (cases sl; simp add: fst_AddPhis_step)
  apply (cases sl; simp add: fst_AddPhis_step regs_simps)
  done

lemma AddPhis_slot_same:
  "slot_phi (fst (AddPhis_slot sl st)) sl = Some (Inst (next_inst (snd st)))"
  "slot_value (regfile (fst (AddPhis_slot sl st))) sl = Some (Inst (next_inst (snd st)))"
   apply (cases sl; simp add: fst_AddPhis_step)
  apply (cases sl; simp add: fst_AddPhis_step regs_simps)
  done

lemma AddPhis_slot_other:
  "sl' \<noteq> sl \<Longrightarrow> slot_phi (fst (AddPhis_slot sl st)) sl' = slot_phi (fst st) sl'"
  "sl' \<noteq> sl \<Longrightarrow> slot_value (regfile (fst (AddPhis_slot sl st))) sl'
                    = slot_value (regfile (fst st)) sl'"
   apply (cases sl; cases sl'; auto simp add: fst_AddPhis_step)
  apply (cases sl; cases sl'; auto simp add: fst_AddPhis_step regs_simps)
  done


lemma fold_slots_store:
  "next_inst (snd (fold AddPhis_slot sls st)) = next_inst (snd st) + length sls"
  "insert_block (snd (fold AddPhis_slot sls st)) = insert_block (snd st)"
  "blocks (snd (fold AddPhis_slot sls st)) = blocks (snd st)"
  "state_regfile (snd (fold AddPhis_slot sls st)) = state_regfile (snd st)"
  by (induction sls arbitrary: st; simp add: AddPhis_slot_store Insert_def Let_def)+

lemma fold_slots_contents:
  "insert_block (snd st) = Some bb \<Longrightarrow>
     contents (snd (fold AddPhis_slot sls st)) bb =
       contents (snd st) bb @ [next_inst (snd st) ..< next_inst (snd st) + length sls]"
proof (induction sls arbitrary: st)
  case Nil
  then show ?case by simp
next
  case (Cons x xs)
  have ib: "insert_block (snd (AddPhis_slot x st)) = Some bb"
    using Cons.prems by (simp add: AddPhis_slot_store Insert_def Let_def)
  have n: "next_inst (snd (AddPhis_slot x st)) = Suc (next_inst (snd st))"
    by (simp add: AddPhis_slot_store Insert_def Let_def)
  have c: "contents (snd (AddPhis_slot x st)) bb = contents (snd st) bb @ [next_inst (snd st)]"
    using Cons.prems by (simp add: AddPhis_slot_store Insert_def Let_def)
  have u: "[next_inst (snd st) ..< next_inst (snd st) + length (x # xs)] =
             next_inst (snd st) # [Suc (next_inst (snd st)) ..< Suc (next_inst (snd st)) + length xs]"
    using upt_conv_Cons [of "next_inst (snd st)" "Suc (next_inst (snd st) + length xs)"]
    by (simp del: upt_Suc)
  show ?case
    using Cons.IH [OF ib] unfolding u by (simp add: n c del: upt_Suc)
qed

lemma fold_slots_insts:
  "insts (snd (fold AddPhis_slot sls st)) k =
     (if next_inst (snd st) \<le> k \<and> k < next_inst (snd st) + length sls
      then Some (PHINode (slot_type (sls ! (k - next_inst (snd st)))) [])
      else insts (snd st) k)"
proof (induction sls arbitrary: st)
  case Nil
  then show ?case by auto
next
  case (Cons x xs)
  have n: "next_inst (snd (AddPhis_slot x st)) = Suc (next_inst (snd st))"
    by (simp add: AddPhis_slot_store Insert_def Let_def)
  have i: "insts (snd (AddPhis_slot x st)) =
             (insts (snd st))(next_inst (snd st) \<mapsto> PHINode (slot_type x) [])"
    by (simp add: AddPhis_slot_store Insert_def Let_def)
  show ?case
    using Cons.IH [of "AddPhis_slot x st"]
    by (auto simp add: n i nth_Cons' Suc_diff_le)
qed

lemma fold_slots_other:
  "sl \<notin> set sls \<Longrightarrow> slot_phi (fst (fold AddPhis_slot sls st)) sl = slot_phi (fst st) sl"
  "sl \<notin> set sls \<Longrightarrow> slot_value (regfile (fst (fold AddPhis_slot sls st))) sl
                      = slot_value (regfile (fst st)) sl"
  by (induction sls arbitrary: st; simp add: AddPhis_slot_other)+

lemma fold_slots_frame:
  "llvmBB (fst (fold AddPhis_slot sls st)) = llvmBB (fst st)"
  "preds (fst (fold AddPhis_slot sls st)) = preds (fst st)"
  "nextBranch (fst (fold AddPhis_slot sls st)) = nextBranch (fst st)"
  "nextFallThrough (fst (fold AddPhis_slot sls st)) = nextFallThrough (fst st)"
  "new_rip (fst (fold AddPhis_slot sls st)) = new_rip (fst st)"
  "GetReg (regfile (fst (fold AddPhis_slot sls st))) (LLReg LL_RT_IP i) f
     = GetReg (regfile (fst st)) (LLReg LL_RT_IP i) f"
  "facets (phis_gp (fst (fold AddPhis_slot sls st)) i) = facets (phis_gp (fst st) i)"
  "facets (phis_sse (fst (fold AddPhis_slot sls st)) i) = facets (phis_sse (fst st) i)"
  by (induction sls arbitrary: st; simp add: AddPhis_slot_frame AddPhis_slot_facets)+

lemma fold_slots_created:
  "distinct sls \<Longrightarrow> n < length sls \<Longrightarrow>
     slot_phi (fst (fold AddPhis_slot sls st)) (sls ! n) = Some (Inst (next_inst (snd st) + n)) \<and>
     slot_value (regfile (fst (fold AddPhis_slot sls st))) (sls ! n)
       = Some (Inst (next_inst (snd st) + n))"
proof (induction sls arbitrary: st n)
  case Nil
  then show ?case by simp
next
  case (Cons x xs)
  have nx: "next_inst (snd (AddPhis_slot x st)) = Suc (next_inst (snd st))"
    by (simp add: AddPhis_slot_store Insert_def Let_def)
  show ?case
  proof (cases n)
    case 0
    with Cons.prems show ?thesis
      by (simp add: fold_slots_other AddPhis_slot_same)
  next
    case (Suc m)
    with Cons.prems Cons.IH [of m "AddPhis_slot x st"] show ?thesis
      by (simp add: nx)
  qed
qed

text \<open>The three loop nests of \<^verbatim>\<open>AddPhis\<close> are one pass over the places of the block.\<close>

lemma set_concat_upt:
  "set (concat (map (\<lambda>i. map (C i) (fs i)) [0..<n])) = {C i f |i f. i < n \<and> f \<in> set (fs i)}"
  by auto blast

lemma distinct_concat_upt:
  assumes "\<forall>i<n. distinct (fs i)" and "\<And>i f j g. C i f = C j g \<Longrightarrow> i = j \<and> f = g"
  shows "distinct (concat (map (\<lambda>i. map (C i) (fs i)) [0..<n]))"
  using assms(1)
proof (induction n)
  case 0
  then show ?case by simp
next
  case (Suc n)
  have inj: "inj_on (C n) (set (fs n))"
    using assms(2) by (auto simp add: inj_on_def)
  have d: "distinct (map (C n) (fs n))"
    using Suc.prems inj by (simp add: distinct_map)
  have disj: "set (concat (map (\<lambda>i. map (C i) (fs i)) [0..<n])) \<inter> set (map (C n) (fs n)) = {}"
    using assms(2) by (fastforce simp add: set_concat_upt)
  show ?case
    using Suc d disj by simp
qed

text \<open>
  The places of a block: every required facet of every general-purpose and of every
  vector register, and every flag.
\<close>

lemma set_slots:
  "set (slots B) =
     {GpSlot i f |i f. i < LL_RI_GPMax \<and> f \<in> set (facets (phis_gp B i))} \<union>
     {SseSlot i f |i f. i < LL_RI_XMMMax \<and> f \<in> set (facets (phis_sse B i))} \<union>
     {FlagSlot i |i. i < RFLAG_Max}"
  unfolding slots_def set_append set_concat_upt by auto

lemma distinct_slots:
  assumes "\<forall>i<LL_RI_GPMax. distinct (facets (phis_gp B i))"
    and "\<forall>i<LL_RI_XMMMax. distinct (facets (phis_sse B i))"
  shows "distinct (slots B)"
proof -
  have g: "distinct (concat (map (\<lambda>i. map (GpSlot i) (facets (phis_gp B i))) [0..<LL_RI_GPMax]))"
    using assms(1) by (rule distinct_concat_upt) simp
  have x: "distinct (concat (map (\<lambda>i. map (SseSlot i) (facets (phis_sse B i))) [0..<LL_RI_XMMMax]))"
    using assms(2) by (rule distinct_concat_upt) simp
  have f: "distinct (map FlagSlot [0..<RFLAG_Max])"
    by (simp add: distinct_map inj_on_def)
  show ?thesis
    unfolding slots_def using g x f
    by (auto simp add: set_concat_upt simp del: set_concat)
qed

lemma fold_inner_gp:
  "fold (AddPhis_gp i) fs st = fold AddPhis_slot (map (GpSlot i) fs) st"
  by (induction fs arbitrary: st) simp_all

lemma fold_inner_sse:
  "fold (AddPhis_sse i) fs st = fold AddPhis_slot (map (SseSlot i) fs) st"
  by (induction fs arbitrary: st) simp_all

lemma fold_flags:
  "fold AddPhis_flag js st = fold AddPhis_slot (map FlagSlot js) st"
  by (induction js arbitrary: st) simp_all

lemma fold_outer_gp:
  "fold (\<lambda>i st. fold (AddPhis_gp i) (facets (phis_gp (fst st) i)) st) js st =
     fold AddPhis_slot (concat (map (\<lambda>i. map (GpSlot i) (facets (phis_gp (fst st) i))) js)) st"
  by (induction js arbitrary: st) (simp_all add: fold_inner_gp fold_slots_frame)

lemma fold_outer_sse:
  "fold (\<lambda>i st. fold (AddPhis_sse i) (facets (phis_sse (fst st) i)) st) js st =
     fold AddPhis_slot (concat (map (\<lambda>i. map (SseSlot i) (facets (phis_sse (fst st) i))) js)) st"
  by (induction js arbitrary: st) (simp_all add: fold_inner_sse fold_slots_frame)

lemma AddPhis_flat:
  assumes "blocks s this = Some B"
  shows "AddPhis this s =
     Inr ((snd (fold AddPhis_slot (slots B) (B, SetCurrent this B s)))
            \<lparr>blocks := (blocks s)(this \<mapsto> fst (fold AddPhis_slot (slots B) (B, SetCurrent this B s)))\<rparr>)"
  using assms
  by (simp add: AddPhis_def Let_def split_def fold_outer_gp fold_outer_sse fold_flags
      fold_slots_frame slots_def fold_slots_store SetCurrent_def)

lemma map_nth_shift:
  "map (\<lambda>k. g (xs ! (k - n))) [n..<n + length xs] = map g xs"
  by (rule nth_equalityI) simp_all

lemma SetCurrent_sel:
  "next_inst (SetCurrent this B s) = next_inst s"
  "insert_block (SetCurrent this B s) = Some (llvmBB B)"
  "contents (SetCurrent this B s) = contents s"
  "insts (SetCurrent this B s) = insts s"
  "blocks (SetCurrent this B s) = blocks s"
  by (simp_all add: SetCurrent_def)

lemma AddPhis_effect:
  assumes "blocks s this = Some B" and "distinct (slots B)"
  shows "\<exists>s' B'. AddPhis this s = Inr s' \<and> blocks s' this = Some B' \<and>
     (\<forall>n<length (slots B).
        slot_phi B' (slots B ! n) = Some (Inst (next_inst s + n)) \<and>
        insts s' (next_inst s + n) = Some (PHINode (slot_type (slots B ! n)) []) \<and>
        slot_value (regfile B') (slots B ! n) = Some (Inst (next_inst s + n))) \<and>
     emitted s s' (llvmBB B) = map (\<lambda>sl. Some (PHINode (slot_type sl) [])) (slots B) \<and>
     (\<forall>sl. sl \<notin> set (slots B) \<longrightarrow> slot_value (regfile B') sl = slot_value (regfile B) sl) \<and>
     (\<forall>i f. GetReg (regfile B') (LLReg LL_RT_IP i) f = GetReg (regfile B) (LLReg LL_RT_IP i) f) \<and>
     slots B' = slots B \<and> llvmBB B' = llvmBB B \<and> preds B' = preds B \<and>
     (\<forall>x. x \<noteq> this \<longrightarrow> blocks s' x = blocks s x) \<and>
     (\<forall>k. k < next_inst s \<longrightarrow> insts s' k = insts s k) \<and>
     state_regfile s' = Some this"
proof -
  let ?init = "(B, SetCurrent this B s)"
  let ?fin = "fold AddPhis_slot (slots B) ?init"
  let ?s' = "(snd ?fin)\<lparr>blocks := (blocks s)(this \<mapsto> fst ?fin)\<rparr>"
  have run: "AddPhis this s = Inr ?s'"
    using assms(1) by (rule AddPhis_flat)
  have ib: "insert_block (snd ?init) = Some (llvmBB B)"
    by (simp add: SetCurrent_sel)
  have created: "\<forall>n<length (slots B).
        slot_phi (fst ?fin) (slots B ! n) = Some (Inst (next_inst s + n)) \<and>
        insts ?s' (next_inst s + n) = Some (PHINode (slot_type (slots B ! n)) []) \<and>
        slot_value (regfile (fst ?fin)) (slots B ! n) = Some (Inst (next_inst s + n))"
    using fold_slots_created [OF assms(2), of _ ?init] fold_slots_insts [of "slots B" ?init]
    by (simp add: SetCurrent_sel)
  have cont: "contents ?s' (llvmBB B) =
                contents s (llvmBB B) @ [next_inst s ..< next_inst s + length (slots B)]"
    using fold_slots_contents [OF ib, of "slots B"] by (simp add: SetCurrent_sel)
  have "emitted s ?s' (llvmBB B) =
          map (\<lambda>k. Some (PHINode (slot_type (slots B ! (k - next_inst s))) []))
            [next_inst s ..< next_inst s + length (slots B)]"
    unfolding emitted_def cont
    using fold_slots_insts [of "slots B" ?init] by (simp add: SetCurrent_sel)
  then have em: "emitted s ?s' (llvmBB B) = map (\<lambda>sl. Some (PHINode (slot_type sl) [])) (slots B)"
    by (simp add: map_nth_shift [of "\<lambda>sl. Some (PHINode (slot_type sl) [])"])
  have same_slots: "slots (fst ?fin) = slots B"
    by (simp add: slots_def fold_slots_frame)
  have old: "\<forall>k. k < next_inst s \<longrightarrow> insts ?s' k = insts s k"
    using fold_slots_insts [of "slots B" ?init] by (simp add: SetCurrent_sel)
  show ?thesis
    using run created em same_slots old
    by (intro exI [of _ ?s'] exI [of _ "fst ?fin"])
       (simp add: fold_slots_other fold_slots_frame fold_slots_store SetCurrent_sel SetCurrent_def)
qed

lemma not_required_slot:
  "\<not> required B (LLReg LL_RT_GP64 i) f \<Longrightarrow> GpSlot i f \<notin> set (slots B)"
  "\<not> required B (LLReg LL_RT_XMM i) f \<Longrightarrow> SseSlot i f \<notin> set (slots B)"
  by (auto simp add: set_slots)

text \<open>
  Claim C7. For a block whose \<^verbatim>\<open>facets()\<close> lists have no repetition (the requirement is a
  set), \<^verbatim>\<open>AddPhis\<close> returns, and afterwards: for every required (general-purpose or vector
  register, facet) pair there is a PHI node, created by this call, of the facet's
  catalog type and with no input, which \<^verbatim>\<open>at(facet)\<close> points at and which the register
  file holds for that register and facet; every flag below \<^verbatim>\<open>RFLAG_Max\<close> has such a
  node of one bit, whatever the requirement set is; different places got different
  nodes, and the block received exactly these nodes, one per place, in the order of the
  loops; and the register file is unchanged at every (register, facet) pair outside the
  requirement set, so that a sibling facet of a register keeps the value it had.
\<close>

theorem AddPhis_creates_placeholders:
  assumes "blocks s this = Some B"
    and "\<forall>i<LL_RI_GPMax. distinct (facets (phis_gp B i))"
    and "\<forall>i<LL_RI_XMMMax. distinct (facets (phis_sse B i))"
  shows "\<exists>s' B'. AddPhis this s = Inr s' \<and> blocks s' this = Some B' \<and>
     (\<forall>i<LL_RI_GPMax. \<forall>f\<in>set (facets (phis_gp B i)). \<exists>k. next_inst s \<le> k \<and>
        at_facet (phis_gp B' i) f = Some (Inst k) \<and>
        insts s' k = Some (PHINode (Facet_Type f) []) \<and>
        GetReg (regfile B') (LLReg LL_RT_GP64 i) f = Some (Inst k)) \<and>
     (\<forall>i<LL_RI_XMMMax. \<forall>f\<in>set (facets (phis_sse B i)). \<exists>k. next_inst s \<le> k \<and>
        at_facet (phis_sse B' i) f = Some (Inst k) \<and>
        insts s' k = Some (PHINode (Facet_Type f) []) \<and>
        GetReg (regfile B') (LLReg LL_RT_XMM i) f = Some (Inst k)) \<and>
     (\<forall>i<RFLAG_Max. \<exists>k. next_inst s \<le> k \<and>
        phiFlags B' i = Some k \<and>
        insts s' k = Some (PHINode (IntegerTy 1) []) \<and>
        GetFlag (regfile B') i = Some (Inst k)) \<and>
     distinct (map (slot_phi B') (slots B)) \<and>
     emitted s s' (llvmBB B) = map (\<lambda>sl. Some (PHINode (slot_type sl) [])) (slots B) \<and>
     (\<forall>r f. \<not> required B r f \<longrightarrow> GetReg (regfile B') r f = GetReg (regfile B) r f)"
proof -
  have d: "distinct (slots B)"
    using assms(2,3) by (rule distinct_slots)
  from AddPhis_effect [OF assms(1) d] obtain s' B' where
    run: "AddPhis this s = Inr s'" "blocks s' this = Some B'" and
    created: "\<forall>n<length (slots B).
        slot_phi B' (slots B ! n) = Some (Inst (next_inst s + n)) \<and>
        insts s' (next_inst s + n) = Some (PHINode (slot_type (slots B ! n)) []) \<and>
        slot_value (regfile B') (slots B ! n) = Some (Inst (next_inst s + n))" and
    em: "emitted s s' (llvmBB B) = map (\<lambda>sl. Some (PHINode (slot_type sl) [])) (slots B)" and
    others: "\<forall>sl. sl \<notin> set (slots B) \<longrightarrow> slot_value (regfile B') sl = slot_value (regfile B) sl" and
    ip: "\<forall>i f. GetReg (regfile B') (LLReg LL_RT_IP i) f = GetReg (regfile B) (LLReg LL_RT_IP i) f"
    by blast
  have each: "\<forall>sl\<in>set (slots B). \<exists>k. next_inst s \<le> k \<and> slot_phi B' sl = Some (Inst k) \<and>
      insts s' k = Some (PHINode (slot_type sl) []) \<and> slot_value (regfile B') sl = Some (Inst k)"
  proof
    fix sl assume "sl \<in> set (slots B)"
    then obtain n where "n < length (slots B)" "slots B ! n = sl"
      by (auto simp add: in_set_conv_nth)
    with created show "\<exists>k. next_inst s \<le> k \<and> slot_phi B' sl = Some (Inst k) \<and>
      insts s' k = Some (PHINode (slot_type sl) []) \<and> slot_value (regfile B') sl = Some (Inst k)"
      by (intro exI [of _ "next_inst s + n"]) auto
  qed
  have gp: "\<forall>i<LL_RI_GPMax. \<forall>f\<in>set (facets (phis_gp B i)). \<exists>k. next_inst s \<le> k \<and>
        at_facet (phis_gp B' i) f = Some (Inst k) \<and>
        insts s' k = Some (PHINode (Facet_Type f) []) \<and>
        GetReg (regfile B') (LLReg LL_RT_GP64 i) f = Some (Inst k)"
  proof (intro allI impI ballI)
    fix i f assume "i < LL_RI_GPMax" "f \<in> set (facets (phis_gp B i))"
    then have "GpSlot i f \<in> set (slots B)" by (auto simp add: set_slots)
    with each show "\<exists>k. next_inst s \<le> k \<and>
        at_facet (phis_gp B' i) f = Some (Inst k) \<and>
        insts s' k = Some (PHINode (Facet_Type f) []) \<and>
        GetReg (regfile B') (LLReg LL_RT_GP64 i) f = Some (Inst k)"
      by fastforce
  qed
  have sse: "\<forall>i<LL_RI_XMMMax. \<forall>f\<in>set (facets (phis_sse B i)). \<exists>k. next_inst s \<le> k \<and>
        at_facet (phis_sse B' i) f = Some (Inst k) \<and>
        insts s' k = Some (PHINode (Facet_Type f) []) \<and>
        GetReg (regfile B') (LLReg LL_RT_XMM i) f = Some (Inst k)"
  proof (intro allI impI ballI)
    fix i f assume "i < LL_RI_XMMMax" "f \<in> set (facets (phis_sse B i))"
    then have "SseSlot i f \<in> set (slots B)" by (auto simp add: set_slots)
    with each show "\<exists>k. next_inst s \<le> k \<and>
        at_facet (phis_sse B' i) f = Some (Inst k) \<and>
        insts s' k = Some (PHINode (Facet_Type f) []) \<and>
        GetReg (regfile B') (LLReg LL_RT_XMM i) f = Some (Inst k)"
      by fastforce
  qed
  have fl: "\<forall>i<RFLAG_Max. \<exists>k. next_inst s \<le> k \<and>
        phiFlags B' i = Some k \<and>
        insts s' k = Some (PHINode (IntegerTy 1) []) \<and>
        GetFlag (regfile B') i = Some (Inst k)"
  proof (intro allI impI)
    fix i assume "i < RFLAG_Max"
    then have "FlagSlot i \<in> set (slots B)" by (auto simp add: set_slots)
    with each show "\<exists>k. next_inst s \<le> k \<and>
        phiFlags B' i = Some k \<and>
        insts s' k = Some (PHINode (IntegerTy 1) []) \<and>
        GetFlag (regfile B') i = Some (Inst k)"
      by fastforce
  qed
  have "map (slot_phi B') (slots B) =
          map (\<lambda>n. Some (Inst (next_inst s + n))) [0..<length (slots B)]"
    using created by (intro nth_equalityI) simp_all
  then have dist: "distinct (map (slot_phi B') (slots B))"
    by (simp add: distinct_map inj_on_def)
  have frame: "\<forall>r f. \<not> required B r f \<longrightarrow> GetReg (regfile B') r f = GetReg (regfile B) r f"
  proof (intro allI impI)
    fix r f assume nr: "\<not> required B r f"
    obtain ty i where r: "r = LLReg ty i" by (cases r)
    show "GetReg (regfile B') r f = GetReg (regfile B) r f"
    proof (cases ty)
      case LL_RT_GP64
      with nr r have "GpSlot i f \<notin> set (slots B)"
        by (simp add: not_required_slot)
      with others have "slot_value (regfile B') (GpSlot i f) = slot_value (regfile B) (GpSlot i f)"
        by blast
      with r LL_RT_GP64 show ?thesis by simp
    next
      case LL_RT_XMM
      with nr r have "SseSlot i f \<notin> set (slots B)"
        by (simp add: not_required_slot)
      with others have "slot_value (regfile B') (SseSlot i f) = slot_value (regfile B) (SseSlot i f)"
        by blast
      with r LL_RT_XMM show ?thesis by simp
    next
      case LL_RT_IP
      with r ip show ?thesis by simp
    qed
  qed
  show ?thesis
    using run gp sse fl dist em frame by blast
qed

lemma slots_loop_block:
  "slots loop_block =
     [GpSlot 0 I64, GpSlot 0 I32,
      FlagSlot 0, FlagSlot 1, FlagSlot 2, FlagSlot 3, FlagSlot 4, FlagSlot 5]"
  by code_simp

text \<open>
  On the loop store: nodes for facet \<^verbatim>\<open>I64\<close> of register 0 and for flag 5, the sibling
  facet \<^verbatim>\<open>I8\<close> of register 0 still without value, eight nodes in all (two facets,
  six flags).
\<close>

theorem AddPhis_creates_placeholders_witness:
  "\<exists>s' B'. AddPhis 0 loop_store = Inr s' \<and> blocks s' 0 = Some B' \<and>
     (\<exists>k. at_facet (phis_gp B' 0) I64 = Some (Inst k) \<and>
          insts s' k = Some (PHINode (IntegerTy 64) []) \<and>
          GetReg (regfile B') (LLReg LL_RT_GP64 0) I64 = Some (Inst k)) \<and>
     (\<exists>k. phiFlags B' 5 = Some k \<and>
          insts s' k = Some (PHINode (IntegerTy 1) []) \<and>
          GetFlag (regfile B') 5 = Some (Inst k)) \<and>
     GetReg (regfile B') (LLReg LL_RT_GP64 0) I8 = None \<and>
     length (emitted loop_store s' 10) = 8"
proof -
  have h1: "blocks loop_store 0 = Some loop_block"
    by (simp add: loop_store_def)
  have h2: "\<forall>i<LL_RI_GPMax. distinct (facets (phis_gp loop_block i))"
    and h3: "\<forall>i<LL_RI_XMMMax. distinct (facets (phis_sse loop_block i))"
    by (simp_all add: loop_block_def fresh_block_def no_phis_def)
  from AddPhis_creates_placeholders [OF h1 h2 h3] obtain s' B' where
    run: "AddPhis 0 loop_store = Inr s'" "blocks s' 0 = Some B'" and
    gp: "\<forall>i<LL_RI_GPMax. \<forall>f\<in>set (facets (phis_gp loop_block i)). \<exists>k. next_inst loop_store \<le> k \<and>
        at_facet (phis_gp B' i) f = Some (Inst k) \<and>
        insts s' k = Some (PHINode (Facet_Type f) []) \<and>
        GetReg (regfile B') (LLReg LL_RT_GP64 i) f = Some (Inst k)" and
    fl: "\<forall>i<RFLAG_Max. \<exists>k. next_inst loop_store \<le> k \<and>
        phiFlags B' i = Some k \<and>
        insts s' k = Some (PHINode (IntegerTy 1) []) \<and>
        GetFlag (regfile B') i = Some (Inst k)" and
    em: "emitted loop_store s' (llvmBB loop_block) =
           map (\<lambda>sl. Some (PHINode (slot_type sl) [])) (slots loop_block)" and
    frame: "\<forall>r f. \<not> required loop_block r f \<longrightarrow>
              GetReg (regfile B') r f = GetReg (regfile loop_block) r f"
    by blast
  have "0 < LL_RI_GPMax" "I64 \<in> set (facets (phis_gp loop_block 0))"
    by (simp_all add: LL_RI_GPMax_def loop_block_def)
  with gp have g: "\<exists>k. at_facet (phis_gp B' 0) I64 = Some (Inst k) \<and>
          insts s' k = Some (PHINode (IntegerTy 64) []) \<and>
          GetReg (regfile B') (LLReg LL_RT_GP64 0) I64 = Some (Inst k)"
    by fastforce
  have "5 < RFLAG_Max"
    by (simp add: RFLAG_Max_def)
  with fl have f: "\<exists>k. phiFlags B' 5 = Some k \<and>
          insts s' k = Some (PHINode (IntegerTy 1) []) \<and>
          GetFlag (regfile B') 5 = Some (Inst k)"
    by fastforce
  have "\<not> required loop_block (LLReg LL_RT_GP64 0) I8"
    by (simp add: loop_block_def)
  with frame have "GetReg (regfile B') (LLReg LL_RT_GP64 0) I8
                     = GetReg (regfile loop_block) (LLReg LL_RT_GP64 0) I8"
    by blast
  then have sib: "GetReg (regfile B') (LLReg LL_RT_GP64 0) I8 = None"
    by (simp add: loop_block_def fresh_block_def no_regs_def GetReg_def)
  have "llvmBB loop_block = 10"
    by (simp add: loop_block_def fresh_block_def)
  with em have len: "length (emitted loop_store s' 10) = 8"
    by (simp add: slots_loop_block)
  from run g f sib len show ?thesis by blast
qed

subsection \<open>Placeholder backfill\<close>

lemma bindE_simps [simp]:
  "bindE (Inl e) f = Inl e"
  "bindE (Inr x) f = f x"
  by (simp_all add: bindE_def)

lemma foldE_append:
  "foldE f (xs @ ys) s = bindE (foldE f xs s) (foldE f ys)"
proof (induction xs arbitrary: s)
  case Nil
  then show ?case by simp
next
  case (Cons x xs)
  show ?case
    by (cases "f x s") (simp_all add: Cons.IH)
qed

lemma foldE_map:
  "foldE f (map g xs) s = foldE (\<lambda>x. f (g x)) xs s"
proof (induction xs arbitrary: s)
  case Nil
  then show ?case by simp
next
  case (Cons x xs)
  show ?case
    by (cases "f (g x) s") (simp_all add: Cons.IH)
qed

lemma foldE_nested:
  assumes "\<And>j x. k (C j x) = h j x"
  shows "foldE (\<lambda>j. foldE (h j) (fs j)) js s = foldE k (concat (map (\<lambda>j. map (C j) (fs j)) js)) s"
proof (induction js arbitrary: s)
  case Nil
  then show ?case by simp
next
  case (Cons j js)
  have inner: "foldE k (map (C j) (fs j)) s = foldE (h j) (fs j) s"
    by (simp add: foldE_map assms)
  show ?case
    by (cases "foldE (h j) (fs j) s") (simp_all add: foldE_append inner Cons.IH)
qed

lemma FillPhis_pred_flat:
  "FillPhis_pred B p s =
     (case blocks s p of
        None \<Rightarrow> Inl NullPointer
      | Some pred \<Rightarrow> foldE (FillPhis_slot B pred) (slots B) s)"
proof (cases "blocks s p")
  case None
  then show ?thesis by (simp add: FillPhis_pred_def)
next
  case (Some pred)
  have g: "\<And>s. foldE (\<lambda>j. foldE (FillPhis_gp B pred j) (facets (phis_gp B j))) [0..<LL_RI_GPMax] s =
        foldE (FillPhis_slot B pred)
          (concat (map (\<lambda>j. map (GpSlot j) (facets (phis_gp B j))) [0..<LL_RI_GPMax])) s"
    by (rule foldE_nested) simp
  have x: "\<And>s. foldE (\<lambda>j. foldE (FillPhis_sse B pred j) (facets (phis_sse B j))) [0..<LL_RI_XMMMax] s =
        foldE (FillPhis_slot B pred)
          (concat (map (\<lambda>j. map (SseSlot j) (facets (phis_sse B j))) [0..<LL_RI_XMMMax])) s"
    by (rule foldE_nested) simp
  have f: "foldE (FillPhis_flag B pred) [0..<RFLAG_Max] =
        foldE (FillPhis_slot B pred) (map FlagSlot [0..<RFLAG_Max])"
    by (rule ext) (simp add: foldE_map)
  have app: "\<And>xs ys. foldE (FillPhis_slot B pred) (xs @ ys) =
        (\<lambda>s. bindE (foldE (FillPhis_slot B pred) xs s) (foldE (FillPhis_slot B pred) ys))"
    by (rule ext) (rule foldE_append)
  show ?thesis
    using Some by (simp add: FillPhis_pred_def slots_def app g x f)
qed

lemma FillPhis_slot_ok:
  assumes "slot_phi B sl = Some (Inst k)" and "insts s k = Some (PHINode ty inc)"
    and "slot_value (regfile pred) sl = Some v"
  shows "FillPhis_slot B pred sl s =
           Inr (s\<lparr>insts := (insts s)(k \<mapsto> PHINode ty (inc @ [(v, llvmBB pred)]))\<rparr>)"
  using assms
  by (cases sl)
     (auto simp add: FillPhis_gp_def FillPhis_sse_def FillPhis_flag_def cast_PHINode_def
        addIncoming_def)

lemma foldE_slots_fill:
  assumes "distinct sls" and "inj_on (slot_phi B) (set sls)"
    and "\<forall>sl\<in>set sls. \<exists>k ty inc. slot_phi B sl = Some (Inst k) \<and> insts s k = Some (PHINode ty inc)"
    and "\<forall>sl\<in>set sls. slot_value (regfile pred) sl \<noteq> None"
  shows "\<exists>s'. foldE (FillPhis_slot B pred) sls s = Inr s' \<and>
       blocks s' = blocks s \<and> next_inst s' = next_inst s \<and> contents s' = contents s \<and>
       insert_block s' = insert_block s \<and> state_regfile s' = state_regfile s \<and>
       (\<forall>k. (\<forall>sl\<in>set sls. slot_phi B sl \<noteq> Some (Inst k)) \<longrightarrow> insts s' k = insts s k) \<and>
       (\<forall>sl\<in>set sls. \<forall>k ty inc v. slot_phi B sl = Some (Inst k) \<longrightarrow>
           insts s k = Some (PHINode ty inc) \<longrightarrow> slot_value (regfile pred) sl = Some v \<longrightarrow>
           insts s' k = Some (PHINode ty (inc @ [(v, llvmBB pred)])))"
  using assms
proof (induction sls arbitrary: s)
  case Nil
  then show ?case by simp
next
  case (Cons x xs)
  from Cons.prems(3) obtain k ty inc where
    px: "slot_phi B x = Some (Inst k)" and ix: "insts s k = Some (PHINode ty inc)"
    by auto
  from Cons.prems(4) obtain v where vx: "slot_value (regfile pred) x = Some v"
    by auto
  let ?s1 = "s\<lparr>insts := (insts s)(k \<mapsto> PHINode ty (inc @ [(v, llvmBB pred)]))\<rparr>"
  have step: "FillPhis_slot B pred x s = Inr ?s1"
    using px ix vx by (rule FillPhis_slot_ok)
  have other: "\<forall>sl\<in>set xs. slot_phi B sl \<noteq> Some (Inst k)"
  proof
    fix sl assume m: "sl \<in> set xs"
    with Cons.prems(1) have "sl \<noteq> x" by auto
    with Cons.prems(2) m have "slot_phi B sl \<noteq> slot_phi B x"
      by (auto simp add: inj_on_def)
    then show "slot_phi B sl \<noteq> Some (Inst k)" by (simp add: px)
  qed
  have d: "distinct xs" and inj: "inj_on (slot_phi B) (set xs)"
    using Cons.prems(1,2) by (simp_all add: inj_on_def)
  have pre1: "\<forall>sl\<in>set xs. \<exists>k' ty' inc'. slot_phi B sl = Some (Inst k') \<and>
                insts ?s1 k' = Some (PHINode ty' inc')"
    using Cons.prems(3) other by fastforce
  have val1: "\<forall>sl\<in>set xs. slot_value (regfile pred) sl \<noteq> None"
    using Cons.prems(4) by simp
  from Cons.IH [OF d inj pre1 val1] obtain s' where
    run: "foldE (FillPhis_slot B pred) xs ?s1 = Inr s'" and
    frame: "blocks s' = blocks ?s1" "next_inst s' = next_inst ?s1" "contents s' = contents ?s1"
      "insert_block s' = insert_block ?s1" "state_regfile s' = state_regfile ?s1" and
    keep: "\<forall>k'. (\<forall>sl\<in>set xs. slot_phi B sl \<noteq> Some (Inst k')) \<longrightarrow> insts s' k' = insts ?s1 k'" and
    grow: "\<forall>sl\<in>set xs. \<forall>k' ty' inc' v'. slot_phi B sl = Some (Inst k') \<longrightarrow>
           insts ?s1 k' = Some (PHINode ty' inc') \<longrightarrow> slot_value (regfile pred) sl = Some v' \<longrightarrow>
           insts s' k' = Some (PHINode ty' (inc' @ [(v', llvmBB pred)]))"
    by blast
  have r: "foldE (FillPhis_slot B pred) (x # xs) s = Inr s'"
    using step run by simp
  have k1: "\<forall>k'. (\<forall>sl\<in>set (x # xs). slot_phi B sl \<noteq> Some (Inst k')) \<longrightarrow> insts s' k' = insts s k'"
    using keep px by auto
  have atx: "insts s' k = Some (PHINode ty (inc @ [(v, llvmBB pred)]))"
    using keep other by simp
  have g1: "\<forall>sl\<in>set (x # xs). \<forall>k' ty' inc' v'. slot_phi B sl = Some (Inst k') \<longrightarrow>
           insts s k' = Some (PHINode ty' inc') \<longrightarrow> slot_value (regfile pred) sl = Some v' \<longrightarrow>
           insts s' k' = Some (PHINode ty' (inc' @ [(v', llvmBB pred)]))"
  proof (intro ballI allI impI)
    fix sl k' ty' inc' v'
    assume m: "sl \<in> set (x # xs)" and p: "slot_phi B sl = Some (Inst k')"
      and i: "insts s k' = Some (PHINode ty' inc')" and v': "slot_value (regfile pred) sl = Some v'"
    show "insts s' k' = Some (PHINode ty' (inc' @ [(v', llvmBB pred)]))"
    proof (cases "sl = x")
      case True
      with p px i ix v' vx atx show ?thesis by simp
    next
      case False
      with m have mx: "sl \<in> set xs" by simp
      with other p have "k' \<noteq> k" by auto
      with i have "insts ?s1 k' = Some (PHINode ty' inc')" by simp
      with grow mx p v' show ?thesis by blast
    qed
  qed
  show ?case
    using r frame k1 g1 by (intro exI [of _ s']) simp
qed

lemma placeholder_iff:
  "placeholder s B sl inc \<longleftrightarrow>
     (\<exists>k ty. slot_phi B sl = Some (Inst k) \<and> insts s k = Some (PHINode ty inc))"
proof (cases "slot_phi B sl")
  case None
  then show ?thesis by (simp add: placeholder_def)
next
  case (Some v)
  note phi = this
  show ?thesis
  proof (cases v)
    case (Inst k)
    show ?thesis
    proof (cases "insts s k")
      case None
      with phi Inst show ?thesis by (simp add: placeholder_def)
    next
      case (Some i)
      with phi Inst show ?thesis by (cases i) (auto simp add: placeholder_def)
    qed
  qed (use phi in \<open>simp_all add: placeholder_def\<close>)
qed

lemma incoming_from_blocks:
  "blocks s' = blocks s \<Longrightarrow> incoming_from s' = incoming_from s"
  by (rule ext)+ (simp add: incoming_from_def)

lemma foldE_preds_fill:
  assumes "distinct (slots B)" and "inj_on (slot_phi B) (set (slots B))"
    and "\<forall>sl\<in>set (slots B). placeholder s B sl (inc0 sl)"
    and "\<forall>p\<in>set ps. blocks s p \<noteq> None \<and> (\<forall>sl\<in>set (slots B). incoming_from s sl p \<noteq> None)"
  shows "\<exists>s'. foldE (FillPhis_pred B) ps s = Inr s' \<and>
      blocks s' = blocks s \<and> next_inst s' = next_inst s \<and> contents s' = contents s \<and>
      insert_block s' = insert_block s \<and> state_regfile s' = state_regfile s \<and>
      (\<forall>sl\<in>set (slots B).
         placeholder s' B sl (inc0 sl @ map (\<lambda>p. the (incoming_from s sl p)) ps))"
  using assms(3,4)
proof (induction ps arbitrary: s inc0)
  case Nil
  then show ?case by simp
next
  case (Cons p ps)
  from Cons.prems(2) obtain P where P: "blocks s p = Some P"
    by auto
  have vals: "\<forall>sl\<in>set (slots B). \<exists>v. slot_value (regfile P) sl = Some v \<and>
                incoming_from s sl p = Some (v, llvmBB P)"
    using Cons.prems(2) P by (auto simp add: incoming_from_def split: option.splits)
  have pre: "\<forall>sl\<in>set (slots B). \<exists>k ty inc. slot_phi B sl = Some (Inst k) \<and>
                insts s k = Some (PHINode ty inc)"
    using Cons.prems(1) by (auto simp add: placeholder_iff)
  have val: "\<forall>sl\<in>set (slots B). slot_value (regfile P) sl \<noteq> None"
    using vals by auto
  from foldE_slots_fill [OF assms(1,2) pre val] obtain s1 where
    run1: "foldE (FillPhis_slot B P) (slots B) s = Inr s1" and
    frame1: "blocks s1 = blocks s" "next_inst s1 = next_inst s" "contents s1 = contents s"
      "insert_block s1 = insert_block s" "state_regfile s1 = state_regfile s" and
    grow1: "\<forall>sl\<in>set (slots B). \<forall>k ty inc v. slot_phi B sl = Some (Inst k) \<longrightarrow>
           insts s k = Some (PHINode ty inc) \<longrightarrow> slot_value (regfile P) sl = Some v \<longrightarrow>
           insts s1 k = Some (PHINode ty (inc @ [(v, llvmBB P)]))"
    by blast
  have step: "FillPhis_pred B p s = Inr s1"
    using P run1 by (simp add: FillPhis_pred_flat)
  have inc_eq: "incoming_from s1 = incoming_from s"
    using frame1(1) by (rule incoming_from_blocks)
  have ph1: "\<forall>sl\<in>set (slots B). placeholder s1 B sl (inc0 sl @ [the (incoming_from s sl p)])"
  proof
    fix sl assume m: "sl \<in> set (slots B)"
    from Cons.prems(1) m obtain k ty where
      k: "slot_phi B sl = Some (Inst k)" "insts s k = Some (PHINode ty (inc0 sl))"
      by (auto simp add: placeholder_iff)
    from vals m obtain v where
      v: "slot_value (regfile P) sl = Some v" "incoming_from s sl p = Some (v, llvmBB P)"
      by auto
    from grow1 m k v(1) have "insts s1 k = Some (PHINode ty (inc0 sl @ [(v, llvmBB P)]))"
      by blast
    with k(1) v(2) show "placeholder s1 B sl (inc0 sl @ [the (incoming_from s sl p)])"
      by (auto simp add: placeholder_iff)
  qed
  have rest: "\<forall>q\<in>set ps. blocks s1 q \<noteq> None \<and>
                (\<forall>sl\<in>set (slots B). incoming_from s1 sl q \<noteq> None)"
    using Cons.prems(2) by (simp add: inc_eq frame1)
  from Cons.IH [OF ph1 rest] obtain s' where
    run: "foldE (FillPhis_pred B) ps s1 = Inr s'" and
    frame: "blocks s' = blocks s1" "next_inst s' = next_inst s1" "contents s' = contents s1"
      "insert_block s' = insert_block s1" "state_regfile s' = state_regfile s1" and
    ph: "\<forall>sl\<in>set (slots B). placeholder s' B sl
           ((inc0 sl @ [the (incoming_from s sl p)]) @ map (\<lambda>p. the (incoming_from s1 sl p)) ps)"
    by blast
  show ?case
    using step run frame frame1 ph
    by (intro exI [of _ s']) (simp add: inc_eq)
qed

lemma FillPhis_effect:
  assumes "blocks s this = Some B"
    and "distinct (slots B)" and "inj_on (slot_phi B) (set (slots B))"
    and "\<forall>sl\<in>set (slots B). placeholder s B sl []"
    and "\<forall>p\<in>set (preds B). blocks s p \<noteq> None \<and>
           (\<forall>sl\<in>set (slots B). incoming_from s sl p \<noteq> None)"
  shows "\<exists>s'. FillPhis this s = Inr s' \<and>
      blocks s' = blocks s \<and> next_inst s' = next_inst s \<and> contents s' = contents s \<and>
      insert_block s' = insert_block s \<and> state_regfile s' = None \<and>
      (\<forall>sl\<in>set (slots B).
         placeholder s' B sl (map (\<lambda>p. the (incoming_from s sl p)) (preds B)))"
proof -
  let ?s0 = "s\<lparr>state_regfile := None\<rparr>"
  have inc_eq: "incoming_from ?s0 = incoming_from s"
    by (rule incoming_from_blocks) simp
  have ph0: "\<forall>sl\<in>set (slots B). placeholder ?s0 B sl ((\<lambda>_. []) sl)"
    using assms(4) by (simp add: placeholder_iff)
  have pr0: "\<forall>p\<in>set (preds B). blocks ?s0 p \<noteq> None \<and>
               (\<forall>sl\<in>set (slots B). incoming_from ?s0 sl p \<noteq> None)"
    using assms(5) by (simp add: inc_eq)
  from foldE_preds_fill [OF assms(2,3) ph0 pr0] obtain s' where
    "foldE (FillPhis_pred B) (preds B) ?s0 = Inr s'"
    "blocks s' = blocks ?s0" "next_inst s' = next_inst ?s0" "contents s' = contents ?s0"
    "insert_block s' = insert_block ?s0" "state_regfile s' = state_regfile ?s0"
    "\<forall>sl\<in>set (slots B). placeholder s' B sl ([] @ map (\<lambda>p. the (incoming_from ?s0 sl p)) (preds B))"
    by blast
  then show ?thesis
    using assms(1) by (intro exI [of _ s']) (simp add: FillPhis_def inc_eq)
qed

lemma foldE_keeps:
  assumes "\<And>x s s'. f x s = Inr s' \<Longrightarrow> g s' = g s" and "foldE f xs s = Inr s'"
  shows "g s' = g s"
  using assms(2)
proof (induction xs arbitrary: s)
  case Nil
  then show ?case by simp
next
  case (Cons x xs)
  then obtain s1 where s1: "f x s = Inr s1" and r: "foldE f xs s1 = Inr s'"
    by (cases "f x s") simp_all
  from Cons.IH [OF r] assms(1) [OF s1] show ?case by simp
qed

lemma addIncoming_keeps:
  assumes "addIncoming phi v bb s = Inr s'"
  shows "blocks s' = blocks s \<and> next_inst s' = next_inst s \<and> contents s' = contents s \<and>
         insert_block s' = insert_block s \<and> state_regfile s' = state_regfile s"
proof (cases phi)
  case None
  with assms show ?thesis by (simp add: addIncoming_def)
next
  case (Some k)
  note phi = this
  show ?thesis
  proof (cases "insts s k")
    case None
    with assms phi show ?thesis by (simp add: addIncoming_def)
  next
    case (Some i)
    with assms phi show ?thesis
      by (cases i; cases v) (auto simp add: addIncoming_def)
  qed
qed

lemma FillPhis_slot_keeps:
  assumes "FillPhis_slot B pred sl s = Inr s'"
  shows "blocks s' = blocks s \<and> next_inst s' = next_inst s \<and> contents s' = contents s \<and>
         insert_block s' = insert_block s \<and> state_regfile s' = state_regfile s"
proof (cases sl)
  case (GpSlot j f)
  with assms show ?thesis
    by (cases "cast_PHINode s (at_facet (phis_gp B j) f)")
       (auto simp add: FillPhis_gp_def dest: addIncoming_keeps)
next
  case (SseSlot j f)
  with assms show ?thesis
    by (cases "cast_PHINode s (at_facet (phis_sse B j) f)")
       (auto simp add: FillPhis_sse_def dest: addIncoming_keeps)
next
  case (FlagSlot j)
  with assms show ?thesis
    by (auto simp add: FillPhis_flag_def dest: addIncoming_keeps)
qed

lemma FillPhis_pred_keeps:
  assumes "FillPhis_pred B p s = Inr s'"
  shows "(blocks s', next_inst s', contents s', insert_block s', state_regfile s') =
         (blocks s, next_inst s, contents s, insert_block s, state_regfile s)"
proof (cases "blocks s p")
  case None
  with assms show ?thesis by (simp add: FillPhis_pred_flat)
next
  case (Some pred)
  with assms have r: "foldE (FillPhis_slot B pred) (slots B) s = Inr s'"
    by (simp add: FillPhis_pred_flat)
  show ?thesis
    by (rule foldE_keeps [where f = "FillPhis_slot B pred", OF _ r])
       (auto dest: FillPhis_slot_keeps)
qed

text \<open>
  Claim C8. When \<^verbatim>\<open>FillPhis\<close> has completed, \<^verbatim>\<open>state.regfile\<close>, the handle to the
  current register file, is null, whatever it pointed at before; the blocks (their own
  register files included), the contents of the LLVM blocks and the builder are as
  before. (The source clears the handle as the first statement; with the store passed
  through, the order shows only in a run that fails, which returns no store.)
\<close>

theorem FillPhis_invalidates_regfile:
  assumes "FillPhis this s = Inr s'"
  shows "state_regfile s' = None \<and> blocks s' = blocks s \<and> next_inst s' = next_inst s \<and>
         contents s' = contents s \<and> insert_block s' = insert_block s"
proof (cases "blocks s this")
  case None
  with assms show ?thesis by (simp add: FillPhis_def)
next
  case (Some B)
  with assms have r: "foldE (FillPhis_pred B) (preds B) (s\<lparr>state_regfile := None\<rparr>) = Inr s'"
    by (simp add: FillPhis_def)
  have "(blocks s', next_inst s', contents s', insert_block s', state_regfile s') =
        (blocks (s\<lparr>state_regfile := None\<rparr>), next_inst (s\<lparr>state_regfile := None\<rparr>),
         contents (s\<lparr>state_regfile := None\<rparr>), insert_block (s\<lparr>state_regfile := None\<rparr>),
         state_regfile (s\<lparr>state_regfile := None\<rparr>))"
    by (rule foldE_keeps [where f = "FillPhis_pred B", OF _ r]) (rule FillPhis_pred_keeps)
  then show ?thesis by simp
qed

text \<open>
  Claim C2. Let block \<open>B\<close> have its placeholders as \<^verbatim>\<open>AddPhis\<close> leaves them: the places
  are listed once, different places point at different PHI nodes, every node has no
  input; and let every predecessor be a block whose register file holds a value for
  every place. Then \<^verbatim>\<open>FillPhis\<close> returns, and every placeholder of \<open>B\<close> has as many
  inputs as \<open>B\<close> has entries in its predecessor list, the n-th input being the value
  that the register file of the n-th predecessor holds for the same place, paired with
  that predecessor's LLVM block. A predecessor listed twice contributes twice.
\<close>

theorem FillPhis_fills_placeholders:
  assumes "blocks s this = Some B"
    and "distinct (slots B)" and "inj_on (slot_phi B) (set (slots B))"
    and "\<forall>sl\<in>set (slots B). placeholder s B sl []"
    and "\<forall>p\<in>set (preds B). blocks s p \<noteq> None \<and>
           (\<forall>sl\<in>set (slots B). incoming_from s sl p \<noteq> None)"
  shows "\<exists>s'. FillPhis this s = Inr s' \<and> blocks s' = blocks s \<and>
      (\<forall>sl\<in>set (slots B). \<exists>inc. placeholder s' B sl inc \<and>
          length inc = length (preds B) \<and>
          map Some inc = map (incoming_from s sl) (preds B))"
proof -
  from FillPhis_effect [OF assms] obtain s' where
    r: "FillPhis this s = Inr s'" "blocks s' = blocks s" and
    ph: "\<forall>sl\<in>set (slots B).
           placeholder s' B sl (map (\<lambda>p. the (incoming_from s sl p)) (preds B))"
    by blast
  have "\<forall>sl\<in>set (slots B).
          map Some (map (\<lambda>p. the (incoming_from s sl p)) (preds B)) =
          map (incoming_from s sl) (preds B)"
    using assms(5) by auto
  with r ph show ?thesis
    by (intro exI [of _ s']) (auto simp del: map_map)
qed

text \<open>
  The loop store after \<^verbatim>\<open>AddPhis\<close> on block 0 meets what \<^verbatim>\<open>FillPhis\<close> needs.
\<close>

lemma loop_store_ready:
  "\<exists>s1 B1. AddPhis 0 loop_store = Inr s1 \<and> blocks s1 0 = Some B1 \<and>
     state_regfile s1 = Some 0 \<and> slots B1 = slots loop_block \<and> preds B1 = [0, 2] \<and>
     distinct (slots B1) \<and> inj_on (slot_phi B1) (set (slots B1)) \<and>
     (\<forall>sl\<in>set (slots B1). placeholder s1 B1 sl []) \<and>
     (\<forall>p\<in>set (preds B1). blocks s1 p \<noteq> None \<and>
        (\<forall>sl\<in>set (slots B1). incoming_from s1 sl p \<noteq> None)) \<and>
     incoming_from s1 (GpSlot 0 I64) 0 = Some (Inst 0, 10) \<and>
     incoming_from s1 (GpSlot 0 I64) 2 = Some (Argument 0, 12) \<and>
     incoming_from s1 (FlagSlot 5) 0 = Some (Inst 7, 10) \<and>
     incoming_from s1 (FlagSlot 5) 2 = Some (Argument 1, 12)"
proof -
  have b0: "blocks loop_store 0 = Some loop_block"
    and b2: "blocks loop_store 2 = Some filled_block"
    and n0: "next_inst loop_store = 0"
    by (simp_all add: loop_store_def)
  have d: "distinct (slots loop_block)"
    by (simp add: slots_loop_block)
  from AddPhis_effect [OF b0 d] obtain s1 B1 where
    run: "AddPhis 0 loop_store = Inr s1" "blocks s1 0 = Some B1" and
    created: "\<forall>n<length (slots loop_block).
        slot_phi B1 (slots loop_block ! n) = Some (Inst (next_inst loop_store + n)) \<and>
        insts s1 (next_inst loop_store + n) = Some (PHINode (slot_type (slots loop_block ! n)) []) \<and>
        slot_value (regfile B1) (slots loop_block ! n) = Some (Inst (next_inst loop_store + n))" and
    same: "slots B1 = slots loop_block" "llvmBB B1 = llvmBB loop_block" "preds B1 = preds loop_block" and
    rest: "\<forall>x. x \<noteq> 0 \<longrightarrow> blocks s1 x = blocks loop_store x" and
    handle: "state_regfile s1 = Some 0"
    by blast
  have pr: "preds B1 = [0, 2]" and bb: "llvmBB B1 = 10"
    using same by (simp_all add: loop_block_def fresh_block_def)
  have b2': "blocks s1 2 = Some filled_block"
    using rest b2 by simp
  have each: "\<forall>sl\<in>set (slots loop_block). \<exists>n<length (slots loop_block). sl = slots loop_block ! n \<and>
      slot_phi B1 sl = Some (Inst n) \<and> insts s1 n = Some (PHINode (slot_type sl) []) \<and>
      slot_value (regfile B1) sl = Some (Inst n)"
  proof
    fix sl assume "sl \<in> set (slots loop_block)"
    then obtain n where "n < length (slots loop_block)" "slots loop_block ! n = sl"
      by (auto simp add: in_set_conv_nth)
    with created n0 show "\<exists>n<length (slots loop_block). sl = slots loop_block ! n \<and>
      slot_phi B1 sl = Some (Inst n) \<and> insts s1 n = Some (PHINode (slot_type sl) []) \<and>
      slot_value (regfile B1) sl = Some (Inst n)"
      by (intro exI [of _ n]) auto
  qed
  have inj: "inj_on (slot_phi B1) (set (slots loop_block))"
  proof (rule inj_onI)
    fix x y assume x: "x \<in> set (slots loop_block)" and y: "y \<in> set (slots loop_block)"
      and e: "slot_phi B1 x = slot_phi B1 y"
    from each x obtain n where n: "x = slots loop_block ! n" "slot_phi B1 x = Some (Inst n)" by blast
    from each y obtain m where m: "y = slots loop_block ! m" "slot_phi B1 y = Some (Inst m)" by blast
    from e n(2) m(2) have "n = m" by simp
    with n(1) m(1) show "x = y" by simp
  qed
  have ph: "\<forall>sl\<in>set (slots loop_block). placeholder s1 B1 sl []"
    using each by (auto simp add: placeholder_iff)
  have self: "\<forall>sl\<in>set (slots loop_block). incoming_from s1 sl 0 \<noteq> None"
    using each run(2) by (auto simp add: incoming_from_def)
  have other: "\<forall>sl. incoming_from s1 sl 2 \<noteq> None"
  proof
    fix sl show "incoming_from s1 sl 2 \<noteq> None"
      using b2' by (cases sl) (simp_all add: incoming_from_def filled_block_def GetReg_def GetFlag_def)
  qed
  have c0: "slot_value (regfile B1) (GpSlot 0 I64) = Some (Inst 0)"
    using created [rule_format, of 0] by (simp add: slots_loop_block n0)
  have c7: "slot_value (regfile B1) (FlagSlot 5) = Some (Inst 7)"
    using created [rule_format, of 7] by (simp add: slots_loop_block n0)
  have i1: "incoming_from s1 (GpSlot 0 I64) 0 = Some (Inst 0, 10)"
    using c0 run(2) bb by (simp add: incoming_from_def)
  have i2: "incoming_from s1 (GpSlot 0 I64) 2 = Some (Argument 0, 12)"
    using b2' by (simp add: incoming_from_def filled_block_def fresh_block_def GetReg_def)
  have i3: "incoming_from s1 (FlagSlot 5) 0 = Some (Inst 7, 10)"
    using c7 run(2) bb by (simp add: incoming_from_def)
  have i4: "incoming_from s1 (FlagSlot 5) 2 = Some (Argument 1, 12)"
    using b2' by (simp add: incoming_from_def filled_block_def fresh_block_def GetFlag_def)
  show ?thesis
    using run handle same(1) pr d inj ph self other b2' i1 i2 i3 i4
    by (intro exI [of _ s1] exI [of _ B1]) simp
qed

text \<open>
  On the loop store, after \<^verbatim>\<open>AddPhis\<close>: block 0 is its own first predecessor, so the
  first input of each node is the node itself; the second comes from block 2.
\<close>

theorem FillPhis_fills_placeholders_witness:
  "\<exists>s1 B1 s2. AddPhis 0 loop_store = Inr s1 \<and> blocks s1 0 = Some B1 \<and>
      FillPhis 0 s1 = Inr s2 \<and>
      placeholder s2 B1 (GpSlot 0 I64) [(Inst 0, 10), (Argument 0, 12)] \<and>
      placeholder s2 B1 (FlagSlot 5) [(Inst 7, 10), (Argument 1, 12)]"
proof -
  from loop_store_ready obtain s1 B1 where
    run1: "AddPhis 0 loop_store = Inr s1" and h1: "blocks s1 0 = Some B1" and
    sl: "slots B1 = slots loop_block" and pr: "preds B1 = [0, 2]" and
    h2: "distinct (slots B1)" and h3: "inj_on (slot_phi B1) (set (slots B1))" and
    h4: "\<forall>sl\<in>set (slots B1). placeholder s1 B1 sl []" and
    h5: "\<forall>p\<in>set (preds B1). blocks s1 p \<noteq> None \<and>
           (\<forall>sl\<in>set (slots B1). incoming_from s1 sl p \<noteq> None)" and
    inc: "incoming_from s1 (GpSlot 0 I64) 0 = Some (Inst 0, 10)"
      "incoming_from s1 (GpSlot 0 I64) 2 = Some (Argument 0, 12)"
      "incoming_from s1 (FlagSlot 5) 0 = Some (Inst 7, 10)"
      "incoming_from s1 (FlagSlot 5) 2 = Some (Argument 1, 12)"
    by blast
  from FillPhis_fills_placeholders [OF h1 h2 h3 h4 h5] obtain s2 where
    run2: "FillPhis 0 s1 = Inr s2" and
    ph: "\<forall>sl\<in>set (slots B1). \<exists>inc. placeholder s2 B1 sl inc \<and>
          length inc = length (preds B1) \<and>
          map Some inc = map (incoming_from s1 sl) (preds B1)"
    by blast
  have m: "GpSlot 0 I64 \<in> set (slots B1)" "FlagSlot 5 \<in> set (slots B1)"
    by (simp_all add: sl slots_loop_block)
  from ph m(1) obtain a where
    a: "placeholder s2 B1 (GpSlot 0 I64) a" "map Some a = map (incoming_from s1 (GpSlot 0 I64)) (preds B1)"
    by blast
  from a(2) have "map Some a = map Some [(Inst 0, 10), (Argument 0, 12)]"
    by (simp add: pr inc)
  then have a': "a = [(Inst 0, 10), (Argument 0, 12)]"
    by (simp only: inj_map_eq_map [OF inj_Some])
  from ph m(2) obtain b where
    b: "placeholder s2 B1 (FlagSlot 5) b" "map Some b = map (incoming_from s1 (FlagSlot 5)) (preds B1)"
    by blast
  from b(2) have "map Some b = map Some [(Inst 7, 10), (Argument 1, 12)]"
    by (simp add: pr inc)
  then have b': "b = [(Inst 7, 10), (Argument 1, 12)]"
    by (simp only: inj_map_eq_map [OF inj_Some])
  from run1 h1 run2 a(1) b(1) show ?thesis
    unfolding a' b' by blast
qed


text \<open>
  On the loop store \<^verbatim>\<open>AddPhis\<close> leaves the handle at block 0; after \<^verbatim>\<open>FillPhis\<close> it is
  null.
\<close>

theorem FillPhis_invalidates_regfile_witness:
  "\<exists>s1 s2. AddPhis 0 loop_store = Inr s1 \<and> state_regfile s1 = Some 0 \<and>
     FillPhis 0 s1 = Inr s2 \<and> state_regfile s2 = None \<and> blocks s2 = blocks s1"
proof -
  from loop_store_ready obtain s1 B1 where
    run1: "AddPhis 0 loop_store = Inr s1" and h1: "blocks s1 0 = Some B1" and
    handle: "state_regfile s1 = Some 0" and
    h2: "distinct (slots B1)" and h3: "inj_on (slot_phi B1) (set (slots B1))" and
    h4: "\<forall>sl\<in>set (slots B1). placeholder s1 B1 sl []" and
    h5: "\<forall>p\<in>set (preds B1). blocks s1 p \<noteq> None \<and>
           (\<forall>sl\<in>set (slots B1). incoming_from s1 sl p \<noteq> None)"
    by blast
  from FillPhis_effect [OF h1 h2 h3 h4 h5] obtain s2 where
    run2: "FillPhis 0 s1 = Inr s2"
    by blast
  from FillPhis_invalidates_regfile [OF run2] run1 handle run2 show ?thesis
    by blast
qed

end
